theory Spec2Isabelle
  imports Complex_Main "HOL-Library.Word"
begin

section \<open>Audio parameters of the recorder\<close>

text \<open>
  Model of \<^verbatim>\<open>audio_recorder.py\<close>. Raw audio is a list of bytes; a sample is a signed
  16-bit word. The audio parameters are the attributes that \<^verbatim>\<open>AudioRecorder.__init__\<close>
  sets once and nothing changes afterwards.
\<close>

type_synonym byte = "8 word"
type_synonym bytes = "byte list"
type_synonym int16 = "16 word"

definition CHUNK :: nat where
  "CHUNK = 1024"

definition CHANNELS :: nat where
  "CHANNELS = 1"

definition RATE :: nat where
  "RATE = 48000"

definition SAMPLE_WIDTH :: nat where
  "SAMPLE_WIDTH = 2"

section \<open>Numbers\<close>

text \<open>
  Python's \<^verbatim>\<open>int(x)\<close> on a float truncates towards zero.
\<close>

definition py_int :: "real \<Rightarrow> int" where
  "py_int x = (if 0 \<le> x then \<lfloor>x\<rfloor> else \<lceil>x\<rceil>)"

text \<open>
  \<^verbatim>\<open>chunks_needed = int(self.RATE / self.CHUNK * duration)\<close>, on doubles. The function
  \<open>fl\<close> rounds a real to the nearest double, the exponent left unbounded: the true
  division rounds the quotient, the integer duration is rounded when it is converted (which
  raises OverflowError beyond the largest double), the product is rounded, and
  \<^verbatim>\<open>int\<close> raises OverflowError on the infinity that a product beyond the largest double
  becomes.
\<close>

definition DBL_MAX :: real where
  "DBL_MAX = (2 ^ 53 - 1) * 2 ^ 971"

definition chunks_needed :: "(real \<Rightarrow> real) \<Rightarrow> int \<Rightarrow> string + int" where
  "chunks_needed fl duration =
     (if \<bar>fl (of_int duration)\<bar> > DBL_MAX then Inl ''int too large to convert to float''
      else if \<bar>fl (fl (real RATE / real CHUNK) * fl (of_int duration))\<bar> > DBL_MAX
      then Inl ''cannot convert float infinity to integer''
      else Inr (py_int (fl (fl (real RATE / real CHUNK) * fl (of_int duration)))))"

text \<open>
  A double has 53 significant bits: every \<open>n / 8\<close> with \<open>\<bar>n\<bar> < 2 ^ 53\<close> is a double, and
  rounding leaves it as it is.
\<close>

definition exact_eighths :: "(real \<Rightarrow> real) \<Rightarrow> bool" where
  "exact_eighths fl = (\<forall>n::int. \<bar>n\<bar> < 2 ^ 53 \<longrightarrow> fl (of_int n / 8) = of_int n / 8)"

section \<open>Level of one chunk\<close>

text \<open>
  \<^verbatim>\<open>np.frombuffer(data, dtype=np.int16)\<close> reads little-endian pairs of bytes and raises
  ValueError when the buffer is not a whole number of samples.
\<close>

fun int16_pairs :: "bytes \<Rightarrow> int16 list" where
  "int16_pairs (lo # hi # rest) = of_nat (unat lo + 256 * unat hi) # int16_pairs rest"
| "int16_pairs _ = []"

definition frombuffer_int16 :: "bytes \<Rightarrow> string + int16 list" where
  "frombuffer_int16 data =
     (if length data mod 2 \<noteq> 0 then Inl ''buffer size must be a multiple of element size''
      else Inr (int16_pairs data))"

text \<open>
  The level computation of the capture loop. The squares of 16-bit samples and their sums
  are integers that doubles hold exactly; the operations that can round (the division of
  \<^verbatim>\<open>np.mean\<close>, \<^verbatim>\<open>np.sqrt\<close>, the division by 32768.0 and the product with 100) go
  through the rounding function \<open>fl\<close>, of which the theorems assume only that it is
  monotone and keeps zero, as rounding to nearest does.
\<close>

definition mean_square :: "(real \<Rightarrow> real) \<Rightarrow> int16 list \<Rightarrow> real" where
  "mean_square fl audio_data =
     fl ((\<Sum>x\<leftarrow>audio_data. (real_of_int (sint x))\<^sup>2) / real (length audio_data))"

definition rms :: "(real \<Rightarrow> real) \<Rightarrow> int16 list \<Rightarrow> real" where
  "rms fl audio_data = fl (sqrt (mean_square fl audio_data))"

definition level_of_rms :: "(real \<Rightarrow> real) \<Rightarrow> real \<Rightarrow> int" where
  "level_of_rms fl r = min 100 (py_int (fl (fl (r / 32768) * 100)))"

definition compute_level :: "(real \<Rightarrow> real) \<Rightarrow> int16 list \<Rightarrow> int" where
  "compute_level fl audio_data =
     (if length audio_data > 0 then
        (if mean_square fl audio_data \<ge> 0 then level_of_rms fl (rms fl audio_data)
         else 0)
      else 0)"

section \<open>The WAV container\<close>

text \<open>
  \<^verbatim>\<open>_save_wav\<close> and \<^verbatim>\<open>_play_test_thread\<close> go through the \<^verbatim>\<open>wave\<close> module of the
  Python standard library. Its writer produces the 44-byte RIFF header followed by the
  payload; \<^verbatim>\<open>struct.pack\<close> raises when a header field does not fit its width.
\<close>

fun le_bytes :: "nat \<Rightarrow> nat \<Rightarrow> bytes" where
  "le_bytes 0 v = []"
| "le_bytes (Suc n) v = of_nat (v mod 256) # le_bytes n (v div 256)"

fun le_value :: "bytes \<Rightarrow> nat" where
  "le_value [] = 0"
| "le_value (b # bs) = unat b + 256 * le_value bs"

definition riff_id :: bytes where
  "riff_id = [0x52, 0x49, 0x46, 0x46]"

definition wave_id :: bytes where
  "wave_id = [0x57, 0x41, 0x56, 0x45]"

definition fmt_id :: bytes where
  "fmt_id = [0x66, 0x6D, 0x74, 0x20]"

definition data_id :: bytes where
  "data_id = [0x64, 0x61, 0x74, 0x61]"

definition WAVE_FORMAT_PCM :: nat where
  "WAVE_FORMAT_PCM = 1"

record wav_params =
  nchannels :: nat
  sampwidth :: nat
  framerate :: nat

record wav_file = wav_params +
  payload :: bytes

text \<open>
  \<^verbatim>\<open>setnchannels\<close>, \<^verbatim>\<open>setsampwidth\<close> and \<^verbatim>\<open>setframerate\<close> reject values out of range;
  \<^verbatim>\<open>writeframes\<close> and \<^verbatim>\<open>close\<close> leave a header whose two length fields count the
  bytes written.
\<close>

definition wave_write :: "wav_params \<Rightarrow> bytes \<Rightarrow> string + bytes" where
  "wave_write p data =
     (if nchannels p < 1 then Inl ''bad # of channels''
      else if sampwidth p < 1 \<or> sampwidth p > 4 then Inl ''bad sample width''
      else if framerate p = 0 then Inl ''bad frame rate''
      else if 36 + length data \<ge> 2 ^ 32 \<or> nchannels p \<ge> 2 ^ 16 \<or> framerate p \<ge> 2 ^ 32
              \<or> nchannels p * framerate p * sampwidth p \<ge> 2 ^ 32
              \<or> nchannels p * sampwidth p \<ge> 2 ^ 16
      then Inl ''argument out of range''
      else Inr (riff_id @ le_bytes 4 (36 + length data) @ wave_id
                @ fmt_id @ le_bytes 4 16 @ le_bytes 2 WAVE_FORMAT_PCM
                @ le_bytes 2 (nchannels p) @ le_bytes 4 (framerate p)
                @ le_bytes 4 (nchannels p * framerate p * sampwidth p)
                @ le_bytes 2 (nchannels p * sampwidth p)
                @ le_bytes 2 (sampwidth p * 8)
                @ data_id @ le_bytes 4 (length data) @ data))"

text \<open>
  \<^verbatim>\<open>wave.open(path, 'rb')\<close>, after \<^verbatim>\<open>Wave_read.initfp\<close> and the chunk reader of
  the module (CPython 3.11, little-endian host). The file is a RIFF chunk of the announced
  size \<open>rsize\<close>, starting after the 8 bytes of its header; \<open>rpos\<close> counts what has been
  read of it. A read hands out at most what is left of the chunk and of the file, and after
  the last byte of a chunk of odd size it also consumes the pad byte.
\<close>

definition riff_read :: "bytes \<Rightarrow> nat \<Rightarrow> nat \<Rightarrow> nat \<Rightarrow> bytes \<times> nat" where
  "riff_read bs rsize rpos sz =
     (if rpos \<ge> rsize then ([], rpos)
      else
        (let data = take (min sz (rsize - rpos)) (drop (8 + rpos) bs);
             rpos1 = rpos + length data
         in if rpos1 = rsize \<and> odd rsize
            then (data, rpos1 + length (take 1 (drop (8 + rpos1) bs)))
            else (data, rpos1)))"

text \<open>
  The same read on a chunk inside the RIFF chunk (size \<open>csize\<close>, \<open>cread\<close> bytes read),
  which reads through the RIFF chunk; and \<^verbatim>\<open>skip\<close>, which seeks to the end of the chunk
  and raises RuntimeError when that lies beyond the RIFF chunk.
\<close>

definition sub_read :: "bytes \<Rightarrow> nat \<Rightarrow> nat \<Rightarrow> nat \<Rightarrow> nat \<Rightarrow> nat \<Rightarrow> bytes \<times> nat \<times> nat" where
  "sub_read bs rsize rpos csize cread sz =
     (if cread \<ge> csize then ([], cread, rpos)
      else
        (case riff_read bs rsize rpos (min sz (csize - cread)) of
           (data, rpos1) \<Rightarrow>
             (if cread + length data = csize \<and> odd csize
              then (case riff_read bs rsize rpos1 1 of
                      (dummy, rpos2) \<Rightarrow> (data, cread + length data + length dummy, rpos2))
              else (data, cread + length data, rpos1))))"

definition sub_skip :: "nat \<Rightarrow> nat \<Rightarrow> nat \<Rightarrow> nat \<Rightarrow> string + nat" where
  "sub_skip rsize rpos csize cread =
     (let n = (if odd csize then csize + 1 - cread else csize - cread)
      in if rpos + n > rsize then Inl ''RuntimeError'' else Inr (rpos + n))"

text \<open>
  \<^verbatim>\<open>_read_fmt_chunk\<close>, followed by the \<^verbatim>\<open>skip\<close> of the loop: format tag, channels and
  rate from the first 14 bytes, the sample width rounded up from the bit count; PCM only.
\<close>

definition read_fmt_chunk :: "bytes \<Rightarrow> nat \<Rightarrow> nat \<Rightarrow> nat \<Rightarrow> string + wav_params \<times> nat" where
  "read_fmt_chunk bs rsize rpos csize =
     (case sub_read bs rsize rpos csize 0 14 of
        (d14, cread1, rpos1) \<Rightarrow>
          (if length d14 < 14 then Inl ''EOFError''
           else if le_value (take 2 d14) \<noteq> WAVE_FORMAT_PCM then Inl ''unknown format''
           else
             (case sub_read bs rsize rpos1 csize cread1 2 of
                (d2, cread2, rpos2) \<Rightarrow>
                  (if length d2 < 2 then Inl ''EOFError''
                   else if (le_value d2 + 7) div 8 = 0 then Inl ''bad sample width''
                   else if le_value (take 2 (drop 2 d14)) = 0 then Inl ''bad # of channels''
                   else
                     (case sub_skip rsize rpos2 csize cread2 of
                        Inl e \<Rightarrow> Inl e
                      | Inr rpos3 \<Rightarrow>
                          Inr (\<lparr>nchannels = le_value (take 2 (drop 2 d14)),
                                sampwidth = (le_value d2 + 7) div 8,
                                framerate = le_value (take 4 (drop 4 d14))\<rparr>, rpos3))))))"

text \<open>
  One round of the chunk loop: no further chunk header (the loop ends), an exception, a
  \<open>fmt\<close> chunk read, another chunk skipped, or the \<open>data\<close> chunk found (its size and
  where its bytes start). The payload is what reads of the \<open>data\<close> chunk hand out: at
  most its size, what is left of the RIFF chunk, and what is left of the file.
\<close>

datatype chunk_step =
    NoChunk
  | Failed string
  | FmtChunk wav_params nat
  | OtherChunk nat
  | DataChunk nat nat

definition next_chunk :: "bytes \<Rightarrow> nat \<Rightarrow> nat \<Rightarrow> chunk_step" where
  "next_chunk bs rsize rpos =
     (case riff_read bs rsize rpos 4 of
        (chunkname, rpos1) \<Rightarrow>
          (if length chunkname < 4 then NoChunk
           else
             (case riff_read bs rsize rpos1 4 of
                (sizefield, rpos2) \<Rightarrow>
                  (if length sizefield < 4 then NoChunk
                   else if chunkname = fmt_id then
                     (case read_fmt_chunk bs rsize rpos2 (le_value sizefield) of
                        Inl e \<Rightarrow> Failed e
                      | Inr (p, rpos3) \<Rightarrow> FmtChunk p rpos3)
                   else if chunkname = data_id then DataChunk (le_value sizefield) rpos2
                   else
                     (case sub_skip rsize rpos2 (le_value sizefield) 0 of
                        Inl e \<Rightarrow> Failed e
                      | Inr rpos3 \<Rightarrow> OtherChunk rpos3)))))"

function read_chunks :: "bytes \<Rightarrow> nat \<Rightarrow> nat \<Rightarrow> wav_params option \<Rightarrow> string + wav_file" where
  "read_chunks bs rsize rpos fmt =
     (case next_chunk bs rsize rpos of
        NoChunk \<Rightarrow> Inl ''fmt chunk and/or data chunk missing''
      | Failed e \<Rightarrow> Inl e
      | FmtChunk p rpos' \<Rightarrow> read_chunks bs rsize rpos' (Some p)
      | OtherChunk rpos' \<Rightarrow> read_chunks bs rsize rpos' fmt
      | DataChunk csize rpos' \<Rightarrow>
          (case fmt of
             None \<Rightarrow> Inl ''data chunk before fmt chunk''
           | Some p \<Rightarrow>
               Inr \<lparr>nchannels = nchannels p, sampwidth = sampwidth p, framerate = framerate p,
                     payload = take (min csize (rsize - rpos')) (drop (8 + rpos') bs)\<rparr>))"
  by pat_completeness auto
termination
proof (relation "measure (\<lambda>(bs, rsize, rpos, fmt). rsize - rpos)")
  show "wf (measure (\<lambda>(bs, rsize, rpos, fmt). rsize - rpos))"
    by simp
next
  have rr: "rpos \<le> p \<and> (d \<noteq> [] \<longrightarrow> rpos < rsize \<and> rpos < p)"
    if "riff_read bs rsize rpos sz = (d, p)" for bs rsize rpos sz d p
    using that by (auto simp: riff_read_def Let_def split: if_splits)
  have sr: "rpos \<le> p" if "sub_read bs rsize rpos csize cread sz = (d, c, p)"
    for bs rsize rpos csize cread sz d c p
    using that
    by (auto simp: sub_read_def split: if_splits prod.splits dest!: rr) 
  have sk: "rpos \<le> p" if "sub_skip rsize rpos csize cread = Inr p" for rsize rpos csize cread p
    using that by (auto simp: sub_skip_def Let_def split: if_splits)
  have fm: "rpos \<le> p" if "read_fmt_chunk bs rsize rpos csize = Inr (q, p)"
    for bs rsize rpos csize q p
    using that
    by (auto simp: read_fmt_chunk_def split: if_splits prod.splits sum.splits
        dest!: sr sk)
  have nc: "rpos < rsize \<and> rpos < p"
    if "next_chunk bs rsize rpos = FmtChunk q p \<or> next_chunk bs rsize rpos = OtherChunk p"
    for bs rsize rpos q p
  proof -
    obtain nm p1 where 1: "riff_read bs rsize rpos 4 = (nm, p1)"
      by (cases "riff_read bs rsize rpos 4")
    obtain sf p2 where 2: "riff_read bs rsize p1 4 = (sf, p2)"
      by (cases "riff_read bs rsize p1 4")
    from that have l: "length nm = 4 \<or> length nm > 4" "p2 \<le> p"
      by (auto simp: next_chunk_def 1 2 split: if_splits sum.splits dest!: fm sk)
    then have "nm \<noteq> []" by auto
    with rr [OF 1] have "rpos < rsize" "rpos < p1" by simp_all
    moreover from rr [OF 2] have "p1 \<le> p2" by simp
    ultimately show ?thesis using l(2) by simp
  qed
  fix bs rsize rpos and fmt :: "wav_params option" and q p
  {
    assume "next_chunk bs rsize rpos = FmtChunk q p"
    then have "rpos < rsize \<and> rpos < p" using nc by blast
    then show "((bs, rsize, p, Some q), bs, rsize, rpos, fmt)
        \<in> measure (\<lambda>(bs, rsize, rpos, fmt). rsize - rpos)"
      by auto
  }
  {
    assume "next_chunk bs rsize rpos = OtherChunk p"
    then have "rpos < rsize \<and> rpos < p" using nc by blast
    then show "((bs, rsize, p, fmt), bs, rsize, rpos, fmt)
        \<in> measure (\<lambda>(bs, rsize, rpos, fmt). rsize - rpos)"
      by auto
  }
qed

declare read_chunks.simps [simp del]

definition wave_read :: "bytes \<Rightarrow> string + wav_file" where
  "wave_read bs =
     (if length (take 4 bs) < 4 \<or> length (take 4 (drop 4 bs)) < 4 then Inl ''EOFError''
      else if take 4 bs \<noteq> riff_id then Inl ''file does not start with RIFF id''
      else
        (case riff_read bs (le_value (take 4 (drop 4 bs))) 0 4 of
           (form, rpos) \<Rightarrow>
             (if form \<noteq> wave_id then Inl ''not a WAVE file''
              else read_chunks bs (le_value (take 4 (drop 4 bs))) rpos None)))"

section \<open>The recorder and its surroundings\<close>

text \<open>
  What a run does to the outside is a trace of events: the calls on the input stream of
  the device, the signals \<^verbatim>\<open>level_update\<close>, \<^verbatim>\<open>recording_complete\<close> and
  \<^verbatim>\<open>test_complete\<close>, and the calls on the output stream of a playback.
\<close>

datatype event =
    StreamOpen
  | StreamRead
  | LevelUpdate int
  | StreamStop
  | StreamClose
  | RecordingComplete bool string
  | TestComplete bool string
  | OutputOpen
  | OutputWrite bytes
  | OutputStop
  | OutputClose

text \<open>
  The attributes of \<^verbatim>\<open>AudioRecorder\<close> that change, the files on disk and the trace.
\<close>

record world =
  is_recording :: bool
  frames :: "bytes list"
  test_file_path :: "string option"
  files :: "string \<rightharpoonup> bytes"
  trace :: "event list"

text \<open>
  What the run cannot decide by itself: whether \<^verbatim>\<open>self.p.open\<close> raises (\<open>Some\<close> the
  message), what the \<open>i\<close>-th \<^verbatim>\<open>stream.read\<close> returns or raises, whether
  \<^verbatim>\<open>stop_stream\<close> and \<^verbatim>\<open>close\<close> raise, whether \<^verbatim>\<open>wave.open(filename, 'wb')\<close> raises
  for a path, the same for the output stream of a playback, and the rounding of floats.
  \<^verbatim>\<open>self.is_recording\<close> is shared with the foreground context, which clears it in
  \<^verbatim>\<open>stop_recording\<close>: \<open>stop_requested i\<close> tells whether it is found cleared when the
  loop tests it for the \<open>i\<close>-th time (from 0), that is, after \<open>i\<close> chunks were read.
\<close>

record device =
  open_error :: "string option"
  read_chunk :: "nat \<Rightarrow> string + bytes"
  stop_error :: "string option"
  close_error :: "string option"
  stop_requested :: "nat \<Rightarrow> bool"
  wave_open_error :: "string \<Rightarrow> string option"
  out_open_error :: "string option"
  out_write_error :: "nat \<Rightarrow> string option"
  out_stop_error :: "string option"
  out_close_error :: "string option"
  float_round :: "real \<Rightarrow> real"

definition emit :: "event \<Rightarrow> world \<Rightarrow> world" where
  "emit e w = w\<lparr>trace := trace w @ [e]\<rparr>"

text \<open>
  \<^verbatim>\<open>_save_wav\<close>: the parameters are the recorder's constants, the payload is
  \<^verbatim>\<open>b''.join(self.frames)\<close>. What a failed write leaves on disk is not modelled: the
  file map is then unchanged.
\<close>

definition recorder_params :: wav_params where
  "recorder_params = \<lparr>nchannels = CHANNELS, sampwidth = SAMPLE_WIDTH, framerate = RATE\<rparr>"

definition save_wav :: "device \<Rightarrow> string \<Rightarrow> world \<Rightarrow> (string + unit) \<times> world" where
  "save_wav dev filename w =
     (case wave_open_error dev filename of
        Some e \<Rightarrow> (Inl e, w)
      | None \<Rightarrow>
          (case wave_write recorder_params (concat (frames w)) of
             Inl e \<Rightarrow> (Inl e, w)
           | Inr bs \<Rightarrow> (Inr (), w\<lparr>files := (files w)(filename \<mapsto> bs)\<rparr>)))"

text \<open>
  The loop \<^verbatim>\<open>for _ in range(chunks_needed)\<close> of \<^verbatim>\<open>_record_thread\<close>: \<open>i\<close> counts the
  iterations done, the third argument those left. An exception leaves the loop with the
  world as it was when it was raised.
\<close>

fun record_loop :: "device \<Rightarrow> nat \<Rightarrow> nat \<Rightarrow> world \<Rightarrow> (string + unit) \<times> world" where
  "record_loop dev i 0 w = (Inr (), w)"
| "record_loop dev i (Suc n) w =
     (if stop_requested dev i then (Inr (), w)
      else
        (case read_chunk dev i of
           Inl e \<Rightarrow> (Inl e, w)
         | Inr data \<Rightarrow>
             (let w1 = emit StreamRead (w\<lparr>frames := frames w @ [data]\<rparr>) in
              case frombuffer_int16 data of
                Inl e \<Rightarrow> (Inl e, w1)
              | Inr audio_data \<Rightarrow>
                  record_loop dev (Suc i) n
                    (emit (LevelUpdate (compute_level (float_round dev) audio_data)) w1))))"

text \<open>
  The body of the \<^verbatim>\<open>try\<close> of \<^verbatim>\<open>_record_thread\<close>, then the thread function with its
  \<^verbatim>\<open>except Exception\<close>. \<^verbatim>\<open>range(n)\<close> is empty for \<open>n \<le> 0\<close>.
\<close>

definition record_try :: "device \<Rightarrow> int \<Rightarrow> string \<Rightarrow> world \<Rightarrow> (string + unit) \<times> world" where
  "record_try dev duration output_path w =
     (let w0 = w\<lparr>is_recording := True, frames := []\<rparr> in
      case open_error dev of
        Some e \<Rightarrow> (Inl e, w0)
      | None \<Rightarrow>
          (case chunks_needed (float_round dev) duration of
             Inl e \<Rightarrow> (Inl e, emit StreamOpen w0)
           | Inr n \<Rightarrow>
               (case record_loop dev 0 (nat n) (emit StreamOpen w0) of
                  (Inl e, w2) \<Rightarrow> (Inl e, w2)
                | (Inr u, w2) \<Rightarrow>
                    (case stop_error dev of
                       Some e \<Rightarrow> (Inl e, w2)
                     | None \<Rightarrow>
                         (case close_error dev of
                            Some e \<Rightarrow> (Inl e, emit StreamStop w2)
                          | None \<Rightarrow>
                              (case save_wav dev output_path
                                      (emit StreamClose (emit StreamStop w2)) of
                                 (Inl e, w5) \<Rightarrow> (Inl e, w5)
                               | (Inr u', w5) \<Rightarrow>
                                   (Inr (),
                                    emit (RecordingComplete True (''Saved to '' @ output_path))
                                      (w5\<lparr>is_recording := False\<rparr>))))))))"

definition record_thread :: "device \<Rightarrow> int \<Rightarrow> string \<Rightarrow> world \<Rightarrow> world" where
  "record_thread dev duration output_path w =
     (case record_try dev duration output_path w of
        (Inr u, w') \<Rightarrow> w'
      | (Inl e, w') \<Rightarrow>
          emit (RecordingComplete False (''Error: '' @ e)) (w'\<lparr>is_recording := False\<rparr>))"

section \<open>Playback of the test recording\<close>

text \<open>
  The loop of \<^verbatim>\<open>_play_test_thread\<close>: \<^verbatim>\<open>wf.readframes(self.CHUNK)\<close> hands out the next
  \<open>n\<close> bytes of the payload (\<open>n\<close> is \<^verbatim>\<open>CHUNK\<close> frames of the file's own frame size)
  and the empty string at the end, which ends the loop; \<open>i\<close> counts the writes.
\<close>

function play_loop :: "device \<Rightarrow> nat \<Rightarrow> nat \<Rightarrow> bytes \<Rightarrow> world \<Rightarrow> (string + unit) \<times> world" where
  "play_loop dev n i rest w =
     (if take n rest = [] then (Inr (), w)
      else
        (case out_write_error dev i of
           Some e \<Rightarrow> (Inl e, w)
         | None \<Rightarrow> play_loop dev n (Suc i) (drop n rest) (emit (OutputWrite (take n rest)) w)))"
  by pat_completeness auto
termination
  by (relation "measure (\<lambda>(dev, n, i, rest, w). length rest)") auto

declare play_loop.simps [simp del]

text \<open>
  The body of the \<^verbatim>\<open>try\<close> of \<^verbatim>\<open>_play_test_thread\<close>, and the thread function, whose
  \<^verbatim>\<open>except Exception: pass\<close> drops the error. The output stream is opened with the
  recorder's constants, whatever the header of the file says.
\<close>

definition play_test_try :: "device \<Rightarrow> world \<Rightarrow> (string + unit) \<times> world" where
  "play_test_try dev w =
     (case test_file_path w of
        None \<Rightarrow> (Inl ''expected str, bytes or os.PathLike object'', w)
      | Some path \<Rightarrow>
          (case files w path of
             None \<Rightarrow> (Inl ''No such file or directory'', w)
           | Some bs \<Rightarrow>
               (case wave_read bs of
                  Inl e \<Rightarrow> (Inl e, w)
                | Inr wav \<Rightarrow>
                    (case out_open_error dev of
                       Some e \<Rightarrow> (Inl e, w)
                     | None \<Rightarrow>
                         (case play_loop dev (CHUNK * (nchannels wav * sampwidth wav)) 0
                                 (payload wav) (emit OutputOpen w) of
                            (Inl e, w1) \<Rightarrow> (Inl e, w1)
                          | (Inr u, w1) \<Rightarrow>
                              (case out_stop_error dev of
                                 Some e \<Rightarrow> (Inl e, w1)
                               | None \<Rightarrow>
                                   (case out_close_error dev of
                                      Some e \<Rightarrow> (Inl e, emit OutputStop w1)
                                    | None \<Rightarrow>
                                        (Inr (), emit OutputClose (emit OutputStop w1)))))))))"

definition play_test_thread :: "device \<Rightarrow> world \<Rightarrow> world" where
  "play_test_thread dev w = snd (play_test_try dev w)"

text \<open>
  \<^verbatim>\<open>AudioRecorder.play_test\<close>: the returned flag, and the world once the thread it
  started has run. An unset or empty path and a missing file give \<^verbatim>\<open>False\<close>.
\<close>

definition play_test :: "device \<Rightarrow> world \<Rightarrow> bool \<times> world" where
  "play_test dev w =
     (case test_file_path w of
        None \<Rightarrow> (False, w)
      | Some path \<Rightarrow>
          (if path = [] \<or> files w path = None then (False, w)
           else (True, play_test_thread dev w)))"

section \<open>The window\<close>

text \<open>
  The part of \<^verbatim>\<open>MainWindow\<close> that decides whether a capture starts: its two flags, the
  widgets' values, which buttons are enabled, and the capture threads it has asked the
  recorder to start (\<^verbatim>\<open>recorder.record\<close> and \<^verbatim>\<open>recorder.record_test\<close>), each of which
  opens an input stream of the device when it runs. A request keeps the pieces of the
  output path (category, prefix, index) instead of the formatted string.
\<close>

datatype capture_request =
    Record nat int string string int
  | RecordTest nat int

record main_window =
  mw_is_testing :: bool
  mw_is_recording :: bool
  current_index :: int
  device_selected :: "nat option"
  duration_value :: int
  prefix_text :: string
  record_buttons_enabled :: bool
  test_record_enabled :: bool
  test_play_enabled :: bool
  device_combo_enabled :: bool
  started :: "capture_request list"

definition init_window :: "nat option \<Rightarrow> main_window" where
  "init_window dev_index =
     \<lparr>mw_is_testing = False, mw_is_recording = False, current_index = 1,
      device_selected = dev_index, duration_value = 5, prefix_text = ''sample'',
      record_buttons_enabled = True, test_record_enabled = True, test_play_enabled = False,
      device_combo_enabled = True, started = []\<rparr>"

definition set_ui_enabled :: "bool \<Rightarrow> main_window \<Rightarrow> main_window" where
  "set_ui_enabled enabled mw =
     mw\<lparr>device_combo_enabled := enabled, test_record_enabled := enabled,
        record_buttons_enabled := enabled\<rparr>"

definition record_test :: "main_window \<Rightarrow> main_window" where
  "record_test mw =
     (if mw_is_testing mw \<or> mw_is_recording mw then mw
      else
        (case device_selected mw of
           None \<Rightarrow> mw
         | Some device_index \<Rightarrow>
             mw\<lparr>mw_is_testing := True, test_record_enabled := False,
                test_play_enabled := False, device_combo_enabled := False,
                started := started mw @ [RecordTest device_index 3]\<rparr>))"

definition start_recording :: "main_window \<Rightarrow> string \<Rightarrow> main_window" where
  "start_recording mw category =
     (if mw_is_recording mw then mw
      else
        (case device_selected mw of
           None \<Rightarrow> mw
         | Some device_index \<Rightarrow>
             (set_ui_enabled False (mw\<lparr>mw_is_recording := True\<rparr>))
               \<lparr>started := started mw @
                  [Record device_index (duration_value mw) category
                     (if prefix_text mw = [] then ''sample'' else prefix_text mw)
                     (current_index mw)]\<rparr>))"

definition on_recording_complete :: "main_window \<Rightarrow> bool \<Rightarrow> main_window" where
  "on_recording_complete mw success =
     (let mw1 = set_ui_enabled True (mw\<lparr>mw_is_recording := False\<rparr>)
      in if success then mw1\<lparr>current_index := current_index mw1 + 1\<rparr> else mw1)"

definition on_test_complete :: "main_window \<Rightarrow> bool \<Rightarrow> main_window" where
  "on_test_complete mw success =
     (let mw1 = mw\<lparr>mw_is_testing := False, test_record_enabled := True,
                   device_combo_enabled := True\<rparr>
      in if success then mw1\<lparr>test_play_enabled := True\<rparr> else mw1)"

section \<open>Notions used in the statements\<close>

text \<open>
  The chunk that the \<open>i\<close>-th read returns (nothing when it raises), the level emitted
  for it, and a read that returns a whole number of samples.
\<close>

definition chunk_at :: "device \<Rightarrow> nat \<Rightarrow> bytes" where
  "chunk_at dev i = (case read_chunk dev i of Inr d \<Rightarrow> d | Inl e \<Rightarrow> [])"

definition level_at :: "device \<Rightarrow> nat \<Rightarrow> int" where
  "level_at dev i = compute_level (float_round dev) (int16_pairs (chunk_at dev i))"

definition good_read :: "device \<Rightarrow> nat \<Rightarrow> bool" where
  "good_read dev i = (case read_chunk dev i of Inr d \<Rightarrow> even (length d) | Inl e \<Rightarrow> False)"

text \<open>
  A read as PyAudio delivers it: \<^verbatim>\<open>CHUNK\<close> frames of \<^verbatim>\<open>CHANNELS\<close> samples of
  \<^verbatim>\<open>SAMPLE_WIDTH\<close> bytes.
\<close>

definition full_read :: "device \<Rightarrow> nat \<Rightarrow> bool" where
  "full_read dev i =
     (case read_chunk dev i of
        Inr d \<Rightarrow> length d = CHUNK * SAMPLE_WIDTH * CHANNELS
      | Inl e \<Rightarrow> False)"

definition is_completion :: "event \<Rightarrow> bool" where
  "is_completion ev =
     (case ev of RecordingComplete ok msg \<Rightarrow> True | TestComplete ok msg \<Rightarrow> True | _ \<Rightarrow> False)"

text \<open>
  The file that the writer produces for the recorder's parameters: the header with its two
  length fields, then the payload.
\<close>

definition canonical_file :: "byte \<Rightarrow> byte \<Rightarrow> byte \<Rightarrow> byte \<Rightarrow> byte \<Rightarrow> byte \<Rightarrow> byte \<Rightarrow> byte \<Rightarrow> bytes \<Rightarrow> bytes" where
  "canonical_file s0 s1 s2 s3 t0 t1 t2 t3 data =
     [0x52, 0x49, 0x46, 0x46, s0, s1, s2, s3, 0x57, 0x41, 0x56, 0x45,
      0x66, 0x6D, 0x74, 0x20, 16, 0, 0, 0, 1, 0, 1, 0,
      0x80, 0xBB, 0, 0, 0, 0x77, 1, 0, 2, 0, 16, 0,
      0x64, 0x61, 0x74, 0x61, t0, t1, t2, t3] @ data"

text \<open>
  The world after the stream was opened, \<open>k\<close> chunks were read and the stream was stopped
  and closed; and the number of reads in a trace, which is the number of iterations of the
  capture loop that got as far as reading.
\<close>

definition captured :: "device \<Rightarrow> nat \<Rightarrow> world \<Rightarrow> world" where
  "captured dev k w =
     w\<lparr>is_recording := True, frames := map (chunk_at dev) [0..<k],
       trace := trace w @ [StreamOpen]
         @ concat (map (\<lambda>j. [StreamRead, LevelUpdate (level_at dev j)]) [0..<k])
         @ [StreamStop, StreamClose]\<rparr>"

definition loop_iterations :: "event list \<Rightarrow> nat" where
  "loop_iterations tr = length (filter (\<lambda>e. e = StreamRead) tr)"

section \<open>Concrete devices and worlds\<close>

text \<open>
  A device that delivers silence and never fails, one whose stream fails at the first
  read (the microphone was unplugged), and a recorder that has not run yet.
\<close>

definition silent_device :: device where
  "silent_device =
     \<lparr>open_error = None, read_chunk = (\<lambda>i. Inr (replicate 2048 0)),
      stop_error = None, close_error = None, stop_requested = (\<lambda>i. False),
      wave_open_error = (\<lambda>p. None), out_open_error = None,
      out_write_error = (\<lambda>i. None), out_stop_error = None, out_close_error = None,
      float_round = (\<lambda>x. x)\<rparr>"

definition unplugged_device :: device where
  "unplugged_device = silent_device\<lparr>read_chunk := (\<lambda>i. Inl ''Unanticipated host error'')\<rparr>"

definition idle_world :: world where
  "idle_world =
     \<lparr>is_recording = False, frames = [], test_file_path = None, files = Map.empty,
      trace = []\<rparr>"

text \<open>
  A device on which \<^verbatim>\<open>stop_recording\<close> takes effect once \<open>k\<close> chunks are read, one
  without a usable output, a recorder holding two short chunks, and recorders whose test
  file path is set: with no file there, or with a given file. The last file is a
  well-formed mono 48000 Hz WAV file of three 8-bit samples.
\<close>

definition cancelled_device :: "nat \<Rightarrow> device" where
  "cancelled_device k = silent_device\<lparr>stop_requested := (\<lambda>i. k \<le> i)\<rparr>"

definition no_output_device :: device where
  "no_output_device = silent_device\<lparr>out_open_error := Some ''Invalid output device''\<rparr>"

definition two_chunk_world :: world where
  "two_chunk_world = idle_world\<lparr>frames := [[1, 2], [3, 4]]\<rparr>"

definition test_path :: string where
  "test_path = ''.test/test_recording.wav''"

definition absent_file_world :: world where
  "absent_file_world = idle_world\<lparr>test_file_path := Some test_path\<rparr>"

definition world_with_test_file :: "bytes \<Rightarrow> world" where
  "world_with_test_file bs =
     idle_world\<lparr>test_file_path := Some test_path, files := [test_path \<mapsto> bs]\<rparr>"

definition eight_bit_file :: bytes where
  "eight_bit_file =
     [0x52, 0x49, 0x46, 0x46, 39, 0, 0, 0, 0x57, 0x41, 0x56, 0x45,
      0x66, 0x6D, 0x74, 0x20, 16, 0, 0, 0, 1, 0, 1, 0,
      0x80, 0xBB, 0, 0, 0x80, 0xBB, 0, 0, 1, 0, 8, 0,
      0x64, 0x61, 0x74, 0x61, 3, 0, 0, 0, 1, 2, 3]"

text \<open>
  Three more test files, all mono, 16-bit, 48000 Hz: one with a \<open>LIST\<close> chunk between
  the \<open>fmt\<close> and the \<open>data\<close> chunk, one whose RIFF header announces the size 0, and
  one whose RIFF header announces 37 bytes, so that the RIFF chunk ends after the first of
  the four bytes of the \<open>data\<close> chunk.
\<close>

definition list_chunk_file :: bytes where
  "list_chunk_file =
     [0x52, 0x49, 0x46, 0x46, 52, 0, 0, 0, 0x57, 0x41, 0x56, 0x45,
      0x66, 0x6D, 0x74, 0x20, 16, 0, 0, 0, 1, 0, 1, 0,
      0x80, 0xBB, 0, 0, 0, 0x77, 1, 0, 2, 0, 16, 0,
      0x4C, 0x49, 0x53, 0x54, 4, 0, 0, 0, 0x49, 0x4E, 0x46, 0x4F,
      0x64, 0x61, 0x74, 0x61, 4, 0, 0, 0, 1, 2, 3, 4]"

definition zero_size_file :: bytes where
  "zero_size_file =
     [0x52, 0x49, 0x46, 0x46, 0, 0, 0, 0, 0x57, 0x41, 0x56, 0x45,
      0x66, 0x6D, 0x74, 0x20, 16, 0, 0, 0, 1, 0, 1, 0,
      0x80, 0xBB, 0, 0, 0, 0x77, 1, 0, 2, 0, 16, 0,
      0x64, 0x61, 0x74, 0x61, 2, 0, 0, 0, 1, 2]"

definition short_riff_file :: bytes where
  "short_riff_file =
     [0x52, 0x49, 0x46, 0x46, 37, 0, 0, 0, 0x57, 0x41, 0x56, 0x45,
      0x66, 0x6D, 0x74, 0x20, 16, 0, 0, 0, 1, 0, 1, 0,
      0x80, 0xBB, 0, 0, 0, 0x77, 1, 0, 2, 0, 16, 0,
      0x64, 0x61, 0x74, 0x61, 4, 0, 0, 0, 1, 2, 3, 4]"

section \<open>Facts about the container\<close>

lemma length_le_bytes: "length (le_bytes n v) = n"
  by (induction n arbitrary: v) auto

lemma le_value_le_bytes: "v < 256 ^ n \<Longrightarrow> le_value (le_bytes n v) = v"
proof (induction n arbitrary: v)
  case 0
  then show ?case by simp
next
  case (Suc n)
  have "v div 256 < 256 ^ n"
    using Suc.prems by (simp add: less_mult_imp_div_less mult.commute)
  then have "le_value (le_bytes n (v div 256)) = v div 256"
    by (rule Suc.IH)
  moreover have "unat (of_nat (v mod 256) :: byte) = v mod 256"
    by (simp add: unat_of_nat)
  ultimately show ?case by simp
qed

lemma le_bytes_2: "le_bytes 2 v = [of_nat (v mod 256), of_nat (v div 256 mod 256)]"
proof -
  have "(2::nat) = Suc (Suc 0)" by simp
  then show ?thesis by (simp only: le_bytes.simps)
qed

lemma le_bytes_4: "le_bytes 4 v = [of_nat (v mod 256), of_nat (v div 256 mod 256),
    of_nat (v div 256 div 256 mod 256), of_nat (v div 256 div 256 div 256 mod 256)]"
proof -
  have "(4::nat) = Suc (Suc (Suc (Suc 0)))" by simp
  then show ?thesis by (simp only: le_bytes.simps)
qed

lemma le_bytes_consts:
  "le_bytes 4 16 = [16, 0, 0, 0]" "le_bytes 2 (Suc 0) = [1, 0]"
  "le_bytes 4 48000 = [0x80, 0xBB, 0, 0]" "le_bytes 4 96000 = [0, 0x77, 1, 0]"
  "le_bytes 2 2 = [2, 0]" "le_bytes 2 16 = [16, 0]"
  by (simp_all add: le_bytes_2 le_bytes_4)

lemma wave_write_recorder:
  assumes "36 + length data < 2 ^ 32"
  shows "\<exists>s0 s1 s2 s3 t0 t1 t2 t3.
     le_bytes 4 (36 + length data) = [s0, s1, s2, s3] \<and>
     le_bytes 4 (length data) = [t0, t1, t2, t3] \<and>
     wave_write recorder_params data = Inr (canonical_file s0 s1 s2 s3 t0 t1 t2 t3 data)"
proof -
  obtain s0 s1 s2 s3 where s: "le_bytes 4 (36 + length data) = [s0, s1, s2, s3]"
    by (rule that [OF le_bytes_4])
  obtain t0 t1 t2 t3 where t: "le_bytes 4 (length data) = [t0, t1, t2, t3]"
    by (rule that [OF le_bytes_4])
  have "wave_write recorder_params data =
     Inr ([0x52, 0x49, 0x46, 0x46] @ le_bytes 4 (36 + length data)
          @ [0x57, 0x41, 0x56, 0x45, 0x66, 0x6D, 0x74, 0x20, 16, 0, 0, 0, 1, 0, 1, 0,
             0x80, 0xBB, 0, 0, 0, 0x77, 1, 0, 2, 0, 16, 0, 0x64, 0x61, 0x74, 0x61]
          @ le_bytes 4 (length data) @ data)"
    using assms
    by (simp add: wave_write_def recorder_params_def CHANNELS_def SAMPLE_WIDTH_def RATE_def
        WAVE_FORMAT_PCM_def riff_id_def wave_id_def fmt_id_def data_id_def le_bytes_consts)
  then have "wave_write recorder_params data = Inr (canonical_file s0 s1 s2 s3 t0 t1 t2 t3 data)"
    by (simp only: s t canonical_file_def append_Cons append_Nil)
  with s t show ?thesis by blast
qed

lemma canonical_parts:
  "length (canonical_file s0 s1 s2 s3 t0 t1 t2 t3 data) = 44 + length data"
  "take 4 (canonical_file s0 s1 s2 s3 t0 t1 t2 t3 data) = riff_id"
  "take 4 (drop 4 (canonical_file s0 s1 s2 s3 t0 t1 t2 t3 data)) = [s0, s1, s2, s3]"
  "take 4 (drop 8 (canonical_file s0 s1 s2 s3 t0 t1 t2 t3 data)) = wave_id"
  "take 4 (drop 12 (canonical_file s0 s1 s2 s3 t0 t1 t2 t3 data)) = fmt_id"
  "take 4 (drop 16 (canonical_file s0 s1 s2 s3 t0 t1 t2 t3 data)) = [16, 0, 0, 0]"
  "take 14 (drop 20 (canonical_file s0 s1 s2 s3 t0 t1 t2 t3 data)) =
     [1, 0, 1, 0, 0x80, 0xBB, 0, 0, 0, 0x77, 1, 0, 2, 0]"
  "take 2 (drop 34 (canonical_file s0 s1 s2 s3 t0 t1 t2 t3 data)) = [16, 0]"
  "take 4 (drop 36 (canonical_file s0 s1 s2 s3 t0 t1 t2 t3 data)) = data_id"
  "take 4 (drop 40 (canonical_file s0 s1 s2 s3 t0 t1 t2 t3 data)) = [t0, t1, t2, t3]"
  "drop 44 (canonical_file s0 s1 s2 s3 t0 t1 t2 t3 data) = data"
  by (simp_all add: canonical_file_def riff_id_def wave_id_def fmt_id_def data_id_def)

lemma riff_read_within:
  assumes "rpos + sz \<le> 36" "44 \<le> length bs"
  shows "riff_read bs (36 + n) rpos sz = (take sz (drop (8 + rpos) bs), rpos + sz)"
proof (cases "36 + n \<le> rpos")
  case True
  with assms(1) have "sz = 0" by simp
  with True show ?thesis by (simp add: riff_read_def)
next
  case False
  have m: "min sz (36 + n - rpos) = sz"
    using assms(1) by simp
  have len: "min (length bs - (8 + rpos)) sz = sz"
    using assms by simp
  have c: "rpos + sz = 36 + n \<longrightarrow> even n"
    using assms(1) by (cases "n = 0") auto
  show ?thesis
    using False c by (auto simp: riff_read_def Let_def m len)
qed

lemma le_value_consts:
  "le_value [16, 0, 0, 0] = 16" "le_value [1, 0] = 1" "le_value [0x80, 0xBB, 0, 0] = 48000"
  "le_value [16, 0] = 16"
  by simp_all

lemma next_chunk_canonical_fmt:
  "next_chunk (canonical_file s0 s1 s2 s3 t0 t1 t2 t3 data) (36 + n) 4 =
     FmtChunk \<lparr>nchannels = 1, sampwidth = 2, framerate = 48000\<rparr> 28"
proof -
  let ?bs = "canonical_file s0 s1 s2 s3 t0 t1 t2 t3 data"
  have l: "44 \<le> length ?bs" by (simp add: canonical_parts)
  have r1: "riff_read ?bs (36 + n) 4 4 = (fmt_id, 8)"
    using riff_read_within [of 4 4 ?bs n] l by (simp add: canonical_parts)
  have r2: "riff_read ?bs (36 + n) 8 4 = ([16, 0, 0, 0], 12)"
    using riff_read_within [of 8 4 ?bs n] l by (simp add: canonical_parts)
  have r3: "riff_read ?bs (36 + n) 12 14 =
      ([1, 0, 1, 0, 0x80, 0xBB, 0, 0, 0, 0x77, 1, 0, 2, 0], 26)"
    using riff_read_within [of 12 14 ?bs n] l by (simp add: canonical_parts)
  have r4: "riff_read ?bs (36 + n) 26 2 = ([16, 0], 28)"
    using riff_read_within [of 26 2 ?bs n] l by (simp add: canonical_parts)
  have s1: "sub_read ?bs (36 + n) 12 16 0 14 =
      ([1, 0, 1, 0, 0x80, 0xBB, 0, 0, 0, 0x77, 1, 0, 2, 0], 14, 26)"
    by (simp add: sub_read_def r3)
  have s2: "sub_read ?bs (36 + n) 26 16 14 2 = ([16, 0], 16, 28)"
    by (simp add: sub_read_def r4)
  have sk: "sub_skip (36 + n) 28 16 16 = Inr 28"
    by (simp add: sub_skip_def)
  have f: "read_fmt_chunk ?bs (36 + n) 12 16 =
      Inr (\<lparr>nchannels = 1, sampwidth = 2, framerate = 48000\<rparr>, 28)"
    by (simp add: read_fmt_chunk_def s1 s2 sk WAVE_FORMAT_PCM_def)
  show ?thesis
    by (simp add: next_chunk_def r1 r2 f fmt_id_def)
qed

lemma next_chunk_canonical_data:
  "next_chunk (canonical_file s0 s1 s2 s3 t0 t1 t2 t3 data) (36 + n) 28 =
     DataChunk (le_value [t0, t1, t2, t3]) 36"
proof -
  let ?bs = "canonical_file s0 s1 s2 s3 t0 t1 t2 t3 data"
  have l: "44 \<le> length ?bs" by (simp add: canonical_parts)
  have r1: "riff_read ?bs (36 + n) 28 4 = (data_id, 32)"
    using riff_read_within [of 28 4 ?bs n] l by (simp add: canonical_parts)
  have r2: "riff_read ?bs (36 + n) 32 4 = ([t0, t1, t2, t3], 36)"
    using riff_read_within [of 32 4 ?bs n] l by (simp add: canonical_parts)
  show ?thesis
    by (simp add: next_chunk_def r1 r2 fmt_id_def data_id_def)
qed

lemma wave_read_canonical:
  assumes "le_value [s0, s1, s2, s3] = 36 + length data"
    and "le_value [t0, t1, t2, t3] = length data"
  shows "wave_read (canonical_file s0 s1 s2 s3 t0 t1 t2 t3 data) =
     Inr \<lparr>nchannels = 1, sampwidth = 2, framerate = 48000, payload = data\<rparr>"
proof -
  let ?bs = "canonical_file s0 s1 s2 s3 t0 t1 t2 t3 data"
  let ?n = "length data"
  have l: "44 \<le> length ?bs" by (simp add: canonical_parts)
  have r0: "riff_read ?bs (36 + ?n) 0 4 = (wave_id, 4)"
    using riff_read_within [of 0 4 ?bs ?n] l by (simp add: canonical_parts)
  have c2: "read_chunks ?bs (36 + ?n) 28
      (Some \<lparr>nchannels = 1, sampwidth = 2, framerate = 48000\<rparr>) =
     Inr \<lparr>nchannels = 1, sampwidth = 2, framerate = 48000, payload = data\<rparr>"
  proof -
    have nd: "next_chunk ?bs (36 + ?n) 28 = DataChunk ?n 36"
      by (simp only: next_chunk_canonical_data assms(2))
    show ?thesis
      by (subst read_chunks.simps) (simp add: nd canonical_parts)
  qed
  have c1: "read_chunks ?bs (36 + ?n) 4 None =
     Inr \<lparr>nchannels = 1, sampwidth = 2, framerate = 48000, payload = data\<rparr>"
    by (subst read_chunks.simps) (simp only: next_chunk_canonical_fmt chunk_step.case c2)
  show ?thesis
    unfolding wave_read_def canonical_parts assms(1)
    by (simp add: r0 c1 riff_id_def)
qed

lemma wave_roundtrip:
  assumes "36 + length data < 2 ^ 32"
  shows "\<exists>bs. wave_write recorder_params data = Inr bs \<and> length bs = 44 + length data \<and>
     wave_read bs = Inr \<lparr>nchannels = 1, sampwidth = 2, framerate = 48000, payload = data\<rparr>"
proof -
  from wave_write_recorder [OF assms] obtain s0 s1 s2 s3 t0 t1 t2 t3 where
    s: "le_bytes 4 (36 + length data) = [s0, s1, s2, s3]" and
    t: "le_bytes 4 (length data) = [t0, t1, t2, t3]" and
    w: "wave_write recorder_params data = Inr (canonical_file s0 s1 s2 s3 t0 t1 t2 t3 data)"
    by blast
  have "length data < 256 ^ 4" "36 + length data < 256 ^ 4" using assms by simp_all
  then have "le_value (le_bytes 4 (length data)) = length data"
    "le_value (le_bytes 4 (36 + length data)) = 36 + length data"
    by (simp_all only: le_value_le_bytes)
  then have "le_value [t0, t1, t2, t3] = length data"
    "le_value [s0, s1, s2, s3] = 36 + length data"
    by (simp_all only: s t)
  then have "wave_read (canonical_file s0 s1 s2 s3 t0 t1 t2 t3 data) =
     Inr \<lparr>nchannels = 1, sampwidth = 2, framerate = 48000, payload = data\<rparr>"
    by (simp only: wave_read_canonical)
  with w show ?thesis by (simp add: canonical_parts)
qed

lemma wave_write_too_long:
  assumes "\<not> 36 + length data < 2 ^ 32"
  shows "wave_write p data \<noteq> Inr bs"
proof -
  have "2 ^ 32 \<le> 36 + length data" using assms by simp
  then show ?thesis
    unfolding wave_write_def by (simp only: simp_thms if_True if_False sum.distinct split: if_split)
qed

lemma save_wav_run:
  assumes "wave_open_error dev path = None" "36 + length (concat (frames w)) < 2 ^ 32"
  shows "\<exists>bs. save_wav dev path w = (Inr (), w\<lparr>files := (files w)(path \<mapsto> bs)\<rparr>) \<and>
     length bs = 44 + length (concat (frames w)) \<and>
     wave_read bs = Inr \<lparr>nchannels = 1, sampwidth = 2, framerate = 48000,
                         payload = concat (frames w)\<rparr>"
proof -
  from wave_roundtrip [OF assms(2)] obtain bs where
    bs: "wave_write recorder_params (concat (frames w)) = Inr bs"
        "length bs = 44 + length (concat (frames w))"
        "wave_read bs = Inr \<lparr>nchannels = 1, sampwidth = 2, framerate = 48000,
                         payload = concat (frames w)\<rparr>"
    by blast
  have "save_wav dev path w = (Inr (), w\<lparr>files := (files w)(path \<mapsto> bs)\<rparr>)"
    by (simp add: save_wav_def assms(1) bs(1))
  with bs(2,3) show ?thesis by blast
qed

section \<open>Facts about a capture run\<close>

lemma DBL_MAX_large: "2 ^ 53 \<le> DBL_MAX"
proof -
  have "(1::real) * 2 ^ 53 \<le> (2 ^ 53 - 1) * 2 ^ 971"
    by (intro mult_mono power_increasing) simp_all
  then show ?thesis by (simp only: DBL_MAX_def mult_1)
qed

lemma exact_eighths_id: "exact_eighths (\<lambda>x. x)"
  by (simp add: exact_eighths_def)

lemma chunks_needed_exact:
  assumes "exact_eighths fl" "\<bar>D\<bar> < 2 ^ 43"
  shows "chunks_needed fl D = Inr (py_int (of_int (375 * D) / 8))"
proof -
  have ex: "fl (of_int n / 8) = of_int n / 8" if "\<bar>n\<bar> < 2 ^ 53" for n :: int
    using assms(1) that by (simp add: exact_eighths_def)
  have q: "fl (real RATE / real CHUNK) = 375 / 8"
    using ex [of 375] by (simp add: RATE_def CHUNK_def)
  have d: "fl (of_int D) = of_int D"
    using ex [of "8 * D"] assms(2) by simp
  have p: "fl (375 / 8 * of_int D) = of_int (375 * D) / 8"
    using ex [of "375 * D"] assms(2) by simp
  have "\<bar>D\<bar> < 2 ^ 53" "\<bar>375 * D\<bar> < 8 * 2 ^ 53"
    using assms(2) by (simp_all add: abs_mult)
  then have "real_of_int \<bar>D\<bar> < real_of_int (2 ^ 53)"
    "real_of_int \<bar>375 * D\<bar> < real_of_int (8 * 2 ^ 53)"
    by (simp_all only: of_int_less_iff)
  then have "\<bar>real_of_int D\<bar> < 2 ^ 53" "\<bar>real_of_int (375 * D) / 8\<bar> < 2 ^ 53"
    by simp_all
  then have b: "\<not> \<bar>real_of_int D\<bar> > DBL_MAX" "\<not> \<bar>real_of_int (375 * D) / 8\<bar> > DBL_MAX"
    using DBL_MAX_large by simp_all
  show ?thesis
    unfolding chunks_needed_def q d p using b by simp
qed

lemma chunks_needed_floor:
  assumes "exact_eighths fl" "0 \<le> D" "D < 2 ^ 43"
  shows "chunks_needed fl D = Inr ((int RATE * D) div int CHUNK)"
proof -
  have "\<bar>D\<bar> < 2 ^ 43" using assms(2,3) by simp
  then have "chunks_needed fl D = Inr (py_int (of_int (375 * D) / 8))"
    by (rule chunks_needed_exact [OF assms(1)])
  moreover have "py_int (of_int (375 * D) / 8) = (375 * D) div 8"
  proof -
    have "\<lfloor>real_of_int (375 * D) / real_of_int 8\<rfloor> = (375 * D) div 8"
      by (rule floor_divide_of_int_eq)
    moreover have "0 \<le> real_of_int (375 * D) / 8"
      using assms(2) by simp
    ultimately show ?thesis by (simp add: py_int_def)
  qed
  moreover have "(int RATE * D) div int CHUNK = (375 * D) div 8"
    by (simp add: RATE_def CHUNK_def)
  ultimately show ?thesis by simp
qed

lemma chunks_needed_nat:
  assumes "exact_eighths fl" "\<bar>D\<bar> < 2 ^ 43"
  shows "\<exists>n. chunks_needed fl D = Inr n \<and> nat n = nat ((int RATE * D) div int CHUNK)"
proof (cases "0 \<le> D")
  case True
  then have "chunks_needed fl D = Inr ((int RATE * D) div int CHUNK)"
    using assms by (intro chunks_needed_floor) simp_all
  then show ?thesis by simp
next
  case False
  then have "real_of_int (375 * D) / 8 < 0" by simp
  then have "py_int (of_int (375 * D) / 8) \<le> 0"
    by (simp add: py_int_def ceiling_le_iff)
  moreover have "(int RATE * D) div int CHUNK < 0"
    using False by (simp add: RATE_def CHUNK_def pos_imp_zdiv_neg_iff)
  ultimately show ?thesis
    by (simp add: chunks_needed_exact [OF assms])
qed

lemma chunks_needed_1: "chunks_needed (\<lambda>x. x) 1 = Inr 46"
  using chunks_needed_floor [OF exact_eighths_id, of 1] by (simp add: RATE_def CHUNK_def)

lemma chunks_needed_3: "chunks_needed (\<lambda>x. x) 3 = Inr 140"
  using chunks_needed_floor [OF exact_eighths_id, of 3] by (simp add: RATE_def CHUNK_def)

lemma chunks_needed_5: "chunks_needed (\<lambda>x. x) 5 = Inr 234"
  using chunks_needed_floor [OF exact_eighths_id, of 5] by (simp add: RATE_def CHUNK_def)

lemma record_loop_run:
  assumes "k \<le> n"
    and "\<forall>j<k. \<not> stop_requested dev (i + j) \<and> good_read dev (i + j)"
    and "k = n \<or> stop_requested dev (i + k)"
  shows "record_loop dev i n w =
     (Inr (), w\<lparr>frames := frames w @ map (chunk_at dev) [i..<i + k],
                trace := trace w @ concat (map (\<lambda>j. [StreamRead, LevelUpdate (level_at dev j)]) [i..<i + k])\<rparr>)"
  using assms
proof (induction n arbitrary: i k w)
  case 0
  then show ?case by simp
next
  case (Suc n)
  show ?case
  proof (cases k)
    case 0
    with Suc.prems show ?thesis by simp
  next
    case (Suc k')
    from Suc.prems(2) Suc have ok: "\<not> stop_requested dev i" "good_read dev i"
      by force+
    from ok(2) obtain d where d: "read_chunk dev i = Inr d" "even (length d)"
      by (auto simp: good_read_def split: sum.splits)
    have IH: "record_loop dev (Suc i) n w' =
      (Inr (), w'\<lparr>frames := frames w' @ map (chunk_at dev) [Suc i..<Suc i + k'],
                trace := trace w' @ concat (map (\<lambda>j. [StreamRead, LevelUpdate (level_at dev j)]) [Suc i..<Suc i + k'])\<rparr>)" for w'
    proof (rule Suc.IH)
      show "k' \<le> n" using Suc.prems(1) Suc by simp
      show "\<forall>j<k'. \<not> stop_requested dev (Suc i + j) \<and> good_read dev (Suc i + j)"
        using Suc.prems(2) Suc by force
      show "k' = n \<or> stop_requested dev (Suc i + k')"
        using Suc.prems(3) Suc by simp
    qed
    have upt: "[i..<i + k] = i # [Suc i..<Suc i + k']"
      using Suc by (simp add: upt_rec)
    show ?thesis
      by (simp add: ok d frombuffer_int16_def IH upt emit_def chunk_at_def level_at_def)
  qed
qed

lemma record_try_run:
  assumes "open_error dev = None" "stop_error dev = None" "close_error dev = None"
    and "chunks_needed (float_round dev) D = Inr needed"
    and "k \<le> nat needed"
    and "\<forall>j<k. \<not> stop_requested dev j \<and> good_read dev j"
    and "k = nat needed \<or> stop_requested dev k"
  shows "record_try dev D path w =
     (case save_wav dev path (captured dev k w) of
           (Inl e, w5) \<Rightarrow> (Inl e, w5)
         | (Inr u, w5) \<Rightarrow>
             (Inr (), emit (RecordingComplete True (''Saved to '' @ path)) (w5\<lparr>is_recording := False\<rparr>)))"
proof -
  have "record_loop dev 0 (nat needed) w' =
     (Inr (), w'\<lparr>frames := frames w' @ map (chunk_at dev) [0..<0 + k],
                trace := trace w' @ concat (map (\<lambda>j. [StreamRead, LevelUpdate (level_at dev j)]) [0..<0 + k])\<rparr>)" for w'
    by (rule record_loop_run) (use assms in auto)
  then show ?thesis
    by (simp add: record_try_def assms(1-4) emit_def Let_def captured_def)
qed

lemma save_wav_keeps:
  assumes "save_wav dev path w = (r, w')"
  shows "frames w' = frames w" "trace w' = trace w" "is_recording w' = is_recording w"
  using assms by (auto simp: save_wav_def split: option.splits sum.splits)

lemma save_wav_file:
  assumes "save_wav dev path w = (Inr u, w')"
  shows "36 + length (concat (frames w)) < 2 ^ 32" "wave_open_error dev path = None"
proof -
  from assms obtain bs where "wave_write recorder_params (concat (frames w)) = Inr bs"
    by (auto simp: save_wav_def split: option.splits sum.splits)
  then show "36 + length (concat (frames w)) < 2 ^ 32"
    using wave_write_too_long by blast
  from assms show "wave_open_error dev path = None"
    by (auto simp: save_wav_def split: option.splits sum.splits)
qed

lemma record_thread_frames:
  assumes "open_error dev = None" "stop_error dev = None" "close_error dev = None"
    and "chunks_needed (float_round dev) D = Inr needed"
    and "k \<le> nat needed"
    and "\<forall>j<k. \<not> stop_requested dev j \<and> good_read dev j"
    and "k = nat needed \<or> stop_requested dev k"
  shows "frames (record_thread dev D path w) = map (chunk_at dev) [0..<k]"
proof -
  obtain r w5 where s: "save_wav dev path (captured dev k w) = (r, w5)"
    by (cases "save_wav dev path (captured dev k w)")
  have "frames w5 = map (chunk_at dev) [0..<k]"
    using save_wav_keeps(1) [OF s] by (simp add: captured_def)
  then show ?thesis
    by (cases r) (simp_all add: record_thread_def record_try_run [OF assms] s emit_def)
qed

lemma record_thread_trace:
  assumes "open_error dev = None" "stop_error dev = None" "close_error dev = None"
    and "chunks_needed (float_round dev) D = Inr needed"
    and "k \<le> nat needed"
    and "\<forall>j<k. \<not> stop_requested dev j \<and> good_read dev j"
    and "k = nat needed \<or> stop_requested dev k"
  shows "\<exists>ok msg. trace (record_thread dev D path w) =
     trace w @ [StreamOpen]
       @ concat (map (\<lambda>j. [StreamRead, LevelUpdate (level_at dev j)]) [0..<k])
       @ [StreamStop, StreamClose, RecordingComplete ok msg]"
proof -
  obtain r w5 where s: "save_wav dev path (captured dev k w) = (r, w5)"
    by (cases "save_wav dev path (captured dev k w)")
  have "trace w5 = trace w @ [StreamOpen]
       @ concat (map (\<lambda>j. [StreamRead, LevelUpdate (level_at dev j)]) [0..<k])
       @ [StreamStop, StreamClose]"
    using save_wav_keeps(2) [OF s] by (simp add: captured_def)
  then show ?thesis
    by (cases r) (auto simp: record_thread_def record_try_run [OF assms] s emit_def)
qed

lemma record_thread_saved:
  assumes "open_error dev = None" "stop_error dev = None" "close_error dev = None"
    and "chunks_needed (float_round dev) D = Inr needed"
    and "k \<le> nat needed"
    and "\<forall>j<k. \<not> stop_requested dev j \<and> good_read dev j"
    and "k = nat needed \<or> stop_requested dev k"
    and "wave_open_error dev path = None"
    and "36 + length (concat (map (chunk_at dev) [0..<k])) < 2 ^ 32"
  shows "\<exists>bs. record_thread dev D path w =
       (captured dev k w)\<lparr>is_recording := False, files := (files w)(path \<mapsto> bs),
          trace := trace (captured dev k w) @ [RecordingComplete True (''Saved to '' @ path)]\<rparr>
     \<and> length bs = 44 + length (concat (map (chunk_at dev) [0..<k]))
     \<and> wave_read bs = Inr \<lparr>nchannels = 1, sampwidth = 2, framerate = 48000,
                            payload = concat (map (chunk_at dev) [0..<k])\<rparr>"
proof -
  have fr: "frames (captured dev k w) = map (chunk_at dev) [0..<k]"
    by (simp add: captured_def)
  have "36 + length (concat (frames (captured dev k w))) < 2 ^ 32"
    using assms(9) by (simp only: fr)
  from save_wav_run [OF assms(8) this] obtain bs where
    bs: "save_wav dev path (captured dev k w) =
           (Inr (), (captured dev k w)\<lparr>files := (files (captured dev k w))(path \<mapsto> bs)\<rparr>)"
        "length bs = 44 + length (concat (frames (captured dev k w)))"
        "wave_read bs = Inr \<lparr>nchannels = 1, sampwidth = 2, framerate = 48000,
                         payload = concat (frames (captured dev k w))\<rparr>"
    by blast
  have "record_thread dev D path w =
       (captured dev k w)\<lparr>is_recording := False, files := (files w)(path \<mapsto> bs),
          trace := trace (captured dev k w) @ [RecordingComplete True (''Saved to '' @ path)]\<rparr>"
  proof -
    have "record_thread dev D path w =
      emit (RecordingComplete True (''Saved to '' @ path))
        ((captured dev k w)\<lparr>files := (files (captured dev k w))(path \<mapsto> bs),
            is_recording := False\<rparr>)"
      by (simp add: record_thread_def record_try_run [OF assms(1-7)] bs(1))
    then show ?thesis
      by (simp add: emit_def captured_def)
  qed
  with bs(2,3) show ?thesis by (simp only: fr) blast
qed

lemma full_read_good: "full_read dev i \<Longrightarrow> good_read dev i"
  by (auto simp: full_read_def good_read_def CHUNK_def SAMPLE_WIDTH_def CHANNELS_def
      split: sum.splits)

lemma full_read_length:
  "full_read dev i \<Longrightarrow> length (chunk_at dev i) = CHUNK * SAMPLE_WIDTH * CHANNELS"
  by (auto simp: full_read_def chunk_at_def split: sum.splits)

lemma length_concat_const:
  "(\<And>x. x \<in> set xs \<Longrightarrow> length (f x) = c) \<Longrightarrow> length (concat (map f xs)) = length xs * c"
  by (induction xs) simp_all

lemma count_reads:
  "length (filter (\<lambda>e. e = StreamRead)
     (concat (map (\<lambda>j. [StreamRead, LevelUpdate (g j)]) js))) = length js"
  by (induction js) simp_all

lemma silent_device_simps:
  "open_error silent_device = None" "stop_error silent_device = None"
  "close_error silent_device = None" "wave_open_error silent_device p = None"
  "stop_requested silent_device i = False"
  "read_chunk silent_device i = Inr (replicate 2048 0)"
  "float_round silent_device = (\<lambda>x. x)"
  by (simp_all add: silent_device_def)

lemma cancelled_device_simps:
  "open_error (cancelled_device k) = None" "stop_error (cancelled_device k) = None"
  "close_error (cancelled_device k) = None" "wave_open_error (cancelled_device k) p = None"
  "stop_requested (cancelled_device k) i = (k \<le> i)"
  "read_chunk (cancelled_device k) i = Inr (replicate 2048 0)"
  "float_round (cancelled_device k) = (\<lambda>x. x)"
  by (simp_all add: cancelled_device_def silent_device_def)

section \<open>Chunk count and payload of a capture run\<close>

text \<open>
  The duration spin box of the window ranges over 1..300 and the test recording lasts 3
  seconds: the payload of every recording the window can ask for fits the container.
\<close>

lemma spin_box_payload_fits:
  assumes "exact_eighths fl" "0 \<le> D" "D \<le> 300"
  shows "\<exists>n. chunks_needed fl D = Inr n
    \<and> 36 + nat n * (CHUNK * SAMPLE_WIDTH * CHANNELS) < 2 ^ 32"
proof -
  have cn: "chunks_needed fl D = Inr ((int RATE * D) div int CHUNK)"
    using assms by (intro chunks_needed_floor) simp_all
  have "(int RATE * D) div int CHUNK \<le> (int RATE * 300) div int CHUNK"
    using assms(3) by (intro zdiv_mono1) (simp_all add: RATE_def CHUNK_def)
  then have "(int RATE * D) div int CHUNK \<le> 14062"
    by (simp add: RATE_def CHUNK_def)
  then have "nat ((int RATE * D) div int CHUNK) \<le> 14062" by simp
  then have "nat ((int RATE * D) div int CHUNK) * 2048 \<le> 14062 * 2048"
    by (rule mult_le_mono1)
  then have "36 + nat ((int RATE * D) div int CHUNK) * (CHUNK * SAMPLE_WIDTH * CHANNELS)
      < 2 ^ 32"
    by (simp add: CHUNK_def SAMPLE_WIDTH_def CHANNELS_def)
  with cn show ?thesis by blast
qed

text \<open>
  Claim C1. A capture run of duration \<open>D\<close>, \<open>0 \<le> D < 2 ^ 43\<close> (the spin box allows
  1..300), that is not cancelled, on a device that opens, delivers full chunks and closes,
  appends \<open>floor (RATE * D / CHUNK)\<close> chunks to the frame list; the bytes that
  \<^verbatim>\<open>_save_wav\<close> joins are that many times \<^verbatim>\<open>CHUNK * SAMPLE_WIDTH * CHANNELS\<close>, and so
  is the payload of the file it writes, which it does whenever the payload fits the 32-bit
  length fields of the container (as it does for every duration of the spin box). Below
  \<open>2 ^ 43\<close> the quotient \<open>46.875\<close>, the duration and their product are doubles, so
  that no rounding takes place. For one second: 46 chunks and 94208 bytes.
\<close>

theorem capture_chunks_and_payload:
  assumes "0 \<le> D" "D < 2 ^ 43"
    and "exact_eighths (float_round dev)"
    and "open_error dev = None" "stop_error dev = None" "close_error dev = None"
    and "wave_open_error dev path = None"
    and "\<forall>i. \<not> stop_requested dev i \<and> full_read dev i"
  shows "length (frames (record_thread dev D path w)) = nat ((int RATE * D) div int CHUNK)
    \<and> length (concat (frames (record_thread dev D path w))) =
        length (frames (record_thread dev D path w)) * CHUNK * SAMPLE_WIDTH * CHANNELS
    \<and> (36 + length (concat (frames (record_thread dev D path w))) < 2 ^ 32 \<longrightarrow>
        (\<exists>bs wav. files (record_thread dev D path w) path = Some bs \<and> wave_read bs = Inr wav
           \<and> length (payload wav) =
               length (frames (record_thread dev D path w)) * CHUNK * SAMPLE_WIDTH * CHANNELS))"
proof -
  define needed where "needed = (int RATE * D) div int CHUNK"
  define k where "k = nat needed"
  have cn: "chunks_needed (float_round dev) D = Inr needed"
    unfolding needed_def by (rule chunks_needed_floor [OF assms(3) assms(1) assms(2)])
  have run: "k \<le> nat needed"
      "\<forall>j<k. \<not> stop_requested dev j \<and> good_read dev j"
      "k = nat needed \<or> stop_requested dev k"
    using assms(8) by (simp_all add: k_def full_read_good)
  have fr: "frames (record_thread dev D path w) = map (chunk_at dev) [0..<k]"
    by (rule record_thread_frames [OF assms(4-6) cn run])
  have len: "length (concat (map (chunk_at dev) [0..<k])) = k * (CHUNK * SAMPLE_WIDTH * CHANNELS)"
    using length_concat_const [of "[0..<k]" "chunk_at dev" "CHUNK * SAMPLE_WIDTH * CHANNELS"]
      assms(8) by (simp add: full_read_length)
  have 1: "length (frames (record_thread dev D path w)) = nat ((int RATE * D) div int CHUNK)"
    by (simp add: fr k_def needed_def)
  have 2: "length (concat (frames (record_thread dev D path w))) =
        length (frames (record_thread dev D path w)) * CHUNK * SAMPLE_WIDTH * CHANNELS"
    by (simp add: fr len)
  have 3: "\<exists>bs wav. files (record_thread dev D path w) path = Some bs \<and> wave_read bs = Inr wav
           \<and> length (payload wav) =
               length (frames (record_thread dev D path w)) * CHUNK * SAMPLE_WIDTH * CHANNELS"
    if fits: "36 + length (concat (frames (record_thread dev D path w))) < 2 ^ 32"
  proof -
    have "36 + length (concat (map (chunk_at dev) [0..<k])) < 2 ^ 32"
      using fits by (simp only: fr)
    from record_thread_saved [OF assms(4-6) cn run assms(7) this, of w]
    obtain bs where
      bs: "record_thread dev D path w =
       (captured dev k w)\<lparr>is_recording := False, files := (files w)(path \<mapsto> bs),
          trace := trace (captured dev k w) @ [RecordingComplete True (''Saved to '' @ path)]\<rparr>"
        "wave_read bs = Inr \<lparr>nchannels = 1, sampwidth = 2, framerate = 48000,
                            payload = concat (map (chunk_at dev) [0..<k])\<rparr>"
      by blast
    have "files (record_thread dev D path w) path = Some bs"
      by (simp add: bs(1))
    moreover have "length (payload \<lparr>nchannels = 1, sampwidth = 2, framerate = 48000,
                            payload = concat (map (chunk_at dev) [0..<k])\<rparr>) =
               length (frames (record_thread dev D path w)) * CHUNK * SAMPLE_WIDTH * CHANNELS"
      using 2 by (simp add: fr)
    ultimately show ?thesis using bs(2) by blast
  qed
  from 1 2 3 show ?thesis by blast
qed

theorem capture_chunks_and_payload_witness:
  "length (frames (record_thread silent_device 1 ''output/OK/sample_1.wav'' idle_world)) = 46
   \<and> (\<exists>bs wav. files (record_thread silent_device 1 ''output/OK/sample_1.wav'' idle_world)
          ''output/OK/sample_1.wav'' = Some bs \<and> wave_read bs = Inr wav
        \<and> length (payload wav) = 94208)"
proof -
  let ?w = "record_thread silent_device 1 ''output/OK/sample_1.wav'' idle_world"
  have reads: "\<forall>i. \<not> stop_requested silent_device i \<and> full_read silent_device i"
    by (simp add: silent_device_simps full_read_def CHUNK_def SAMPLE_WIDTH_def CHANNELS_def)
  have t: "length (frames ?w) = nat ((int RATE * 1) div int CHUNK)
    \<and> length (concat (frames ?w)) = length (frames ?w) * CHUNK * SAMPLE_WIDTH * CHANNELS
    \<and> (36 + length (concat (frames ?w)) < 2 ^ 32 \<longrightarrow>
        (\<exists>bs wav. files ?w ''output/OK/sample_1.wav'' = Some bs \<and> wave_read bs = Inr wav
           \<and> length (payload wav) = length (frames ?w) * CHUNK * SAMPLE_WIDTH * CHANNELS))"
    by (rule capture_chunks_and_payload [OF _ _ _ silent_device_simps(1-4) reads])
       (simp_all add: silent_device_simps exact_eighths_id)
  from t have n: "length (frames ?w) = 46"
    by (simp add: RATE_def CHUNK_def)
  from t have "length (concat (frames ?w)) = length (frames ?w) * CHUNK * SAMPLE_WIDTH * CHANNELS"
    by blast
  then have c: "length (concat (frames ?w)) = 94208"
    by (simp add: n CHUNK_def SAMPLE_WIDTH_def CHANNELS_def)
  have "36 + length (concat (frames ?w)) < 2 ^ 32"
    by (simp add: c)
  with t obtain bs wav where
    "files ?w ''output/OK/sample_1.wav'' = Some bs" "wave_read bs = Inr wav"
    "length (payload wav) = length (frames ?w) * CHUNK * SAMPLE_WIDTH * CHANNELS"
    by blast
  then have "files ?w ''output/OK/sample_1.wav'' = Some bs \<and> wave_read bs = Inr wav
    \<and> length (payload wav) = 94208"
    by (simp add: n CHUNK_def SAMPLE_WIDTH_def CHANNELS_def)
  with n show ?thesis by blast
qed

lemma loop_iterations_run:
  assumes "open_error dev = None" "stop_error dev = None" "close_error dev = None"
    and "chunks_needed (float_round dev) D = Inr needed"
    and "k \<le> nat needed"
    and "\<forall>j<k. \<not> stop_requested dev j \<and> good_read dev j"
    and "k = nat needed \<or> stop_requested dev k"
  shows "loop_iterations (trace (record_thread dev D path w)) = loop_iterations (trace w) + k"
proof -
  from record_thread_trace [OF assms, of path w] obtain ok msg where
    "trace (record_thread dev D path w) =
     trace w @ [StreamOpen]
       @ concat (map (\<lambda>j. [StreamRead, LevelUpdate (level_at dev j)]) [0..<k])
       @ [StreamStop, StreamClose, RecordingComplete ok msg]"
    by blast
  then show ?thesis
    by (simp add: loop_iterations_def count_reads)
qed

lemma silent_reads_good: "good_read silent_device i"
  by (simp add: good_read_def silent_device_simps)

text \<open>
  Claim C2, as stated: the loop runs \<open>ceil (D * RATE / CHUNK)\<close> iterations. It does not:
  for one second on a device that never fails the loop reads 46 chunks, and the ceiling
  of \<open>48000 / 1024 = 46.875\<close> is 47.
\<close>

theorem loop_iterations_not_ceiling:
  "loop_iterations (trace (record_thread silent_device 1 ''output/OK/sample_1.wav'' idle_world))
     = 46
   \<and> \<lceil>1 * real RATE / real CHUNK\<rceil> = 47"
proof -
  have "loop_iterations (trace (record_thread silent_device 1 ''output/OK/sample_1.wav''
          idle_world)) = loop_iterations (trace idle_world) + 46"
    by (rule loop_iterations_run [where needed = 46, OF silent_device_simps(1-3)])
       (simp_all add: chunks_needed_1 silent_device_simps silent_reads_good)
  moreover have "\<lceil>1 * real RATE / real CHUNK\<rceil> = 47"
    by (simp add: RATE_def CHUNK_def)
  ultimately show ?thesis
    by (simp add: idle_world_def loop_iterations_def)
qed

text \<open>
  Claim C2, amended: absent cancellation and device errors the loop runs
  \<open>floor (D * RATE / CHUNK)\<close> iterations (none for a negative duration), since
  \<^verbatim>\<open>int\<close> truncates the quotient. This holds for \<open>\<bar>D\<bar> < 2 ^ 43\<close>, where the
  product is computed without rounding; the spin box allows 1..300.
\<close>

theorem loop_iterations_floor:
  assumes "\<bar>D\<bar> < 2 ^ 43"
    and "exact_eighths (float_round dev)"
    and "open_error dev = None" "stop_error dev = None" "close_error dev = None"
    and "\<forall>i. \<not> stop_requested dev i \<and> good_read dev i"
  shows "loop_iterations (trace (record_thread dev D path w)) =
     loop_iterations (trace w) + nat ((int RATE * D) div int CHUNK)"
proof -
  from chunks_needed_nat [OF assms(2) assms(1)] obtain needed where
    cn: "chunks_needed (float_round dev) D = Inr needed" and
    n: "nat needed = nat ((int RATE * D) div int CHUNK)"
    by blast
  have "loop_iterations (trace (record_thread dev D path w)) =
     loop_iterations (trace w) + nat needed"
    by (rule loop_iterations_run [OF assms(3-5) cn]) (simp_all add: assms(6))
  then show ?thesis
    by (simp only: n)
qed

theorem loop_iterations_floor_witness:
  "loop_iterations (trace (record_thread silent_device 3 ''.test/test_recording.wav''
      idle_world)) = 140"
  using loop_iterations_floor [of 3 silent_device "''.test/test_recording.wav''" idle_world]
  by (simp add: silent_device_simps silent_reads_good exact_eighths_id RATE_def CHUNK_def
      idle_world_def loop_iterations_def)

section \<open>Cancellation and empty recordings\<close>

text \<open>
  Claim C4. A run that finds the flag cleared after \<open>k\<close> full chunks were read
  (\<open>0 < k < chunks_needed\<close>) keeps those \<open>k\<close> chunks in the frame list, writes a file
  whose payload is exactly their concatenation, \<open>k\<close> chunks' worth of bytes, and ends with
  \<^verbatim>\<open>recording_complete(True, ...)\<close>. The payload is assumed to fit the container's
  32-bit length fields, as it does for every duration of the spin box.
\<close>

theorem cancelled_capture_keeps_frames:
  assumes "open_error dev = None" "stop_error dev = None" "close_error dev = None"
    and "wave_open_error dev path = None"
    and "chunks_needed (float_round dev) D = Inr needed"
    and "0 < k" "k < nat needed"
    and "\<forall>j<k. \<not> stop_requested dev j \<and> full_read dev j"
    and "stop_requested dev k"
    and "36 + k * (CHUNK * SAMPLE_WIDTH * CHANNELS) < 2 ^ 32"
  shows "frames (record_thread dev D path w) = map (chunk_at dev) [0..<k]
    \<and> (\<exists>bs wav. files (record_thread dev D path w) path = Some bs \<and> wave_read bs = Inr wav
          \<and> payload wav = concat (map (chunk_at dev) [0..<k])
          \<and> length (payload wav) = k * (CHUNK * SAMPLE_WIDTH * CHANNELS))
    \<and> last (trace (record_thread dev D path w)) =
          RecordingComplete True (''Saved to '' @ path)"
proof -
  have run: "k \<le> nat needed"
      "\<forall>j<k. \<not> stop_requested dev j \<and> good_read dev j"
      "k = nat needed \<or> stop_requested dev k"
    using assms(7-9) by (simp_all add: full_read_good)
  have len: "length (concat (map (chunk_at dev) [0..<k])) = k * (CHUNK * SAMPLE_WIDTH * CHANNELS)"
    using length_concat_const [of "[0..<k]" "chunk_at dev" "CHUNK * SAMPLE_WIDTH * CHANNELS"]
      assms(8) by (simp add: full_read_length)
  have "36 + length (concat (map (chunk_at dev) [0..<k])) < 2 ^ 32"
    using assms(10) by (simp only: len)
  from record_thread_saved [OF assms(1-3) assms(5) run assms(4) this, of w]
  obtain bs where
    bs: "record_thread dev D path w =
       (captured dev k w)\<lparr>is_recording := False, files := (files w)(path \<mapsto> bs),
          trace := trace (captured dev k w) @ [RecordingComplete True (''Saved to '' @ path)]\<rparr>"
      "wave_read bs = Inr \<lparr>nchannels = 1, sampwidth = 2, framerate = 48000,
                          payload = concat (map (chunk_at dev) [0..<k])\<rparr>"
    by blast
  have 1: "frames (record_thread dev D path w) = map (chunk_at dev) [0..<k]"
    by (simp add: bs(1) captured_def)
  have f: "files (record_thread dev D path w) path = Some bs"
    by (simp add: bs(1))
  have 3: "last (trace (record_thread dev D path w)) =
          RecordingComplete True (''Saved to '' @ path)"
    by (simp add: bs(1))
  have 2: "\<exists>bs wav. files (record_thread dev D path w) path = Some bs \<and> wave_read bs = Inr wav
          \<and> payload wav = concat (map (chunk_at dev) [0..<k])
          \<and> length (payload wav) = k * (CHUNK * SAMPLE_WIDTH * CHANNELS)"
  proof -
    define wav where "wav = \<lparr>nchannels = 1, sampwidth = 2, framerate = 48000,
                          payload = concat (map (chunk_at dev) [0..<k])\<rparr>"
    have "wave_read bs = Inr wav" "payload wav = concat (map (chunk_at dev) [0..<k])"
      "length (payload wav) = k * (CHUNK * SAMPLE_WIDTH * CHANNELS)"
      by (simp_all add: wav_def bs(2) len)
    with f show ?thesis by blast
  qed
  from 1 2 3 show ?thesis by blast
qed

theorem cancelled_capture_keeps_frames_witness:
  "frames (record_thread (cancelled_device 2) 1 ''output/NG/sample_7.wav'' idle_world) =
     [replicate 2048 0, replicate 2048 0]
   \<and> (\<exists>bs wav. files (record_thread (cancelled_device 2) 1 ''output/NG/sample_7.wav''
            idle_world) ''output/NG/sample_7.wav'' = Some bs
        \<and> wave_read bs = Inr wav \<and> length (payload wav) = 4096)
   \<and> last (trace (record_thread (cancelled_device 2) 1 ''output/NG/sample_7.wav'' idle_world))
       = RecordingComplete True ''Saved to output/NG/sample_7.wav''"
proof -
  let ?w = "record_thread (cancelled_device 2) 1 ''output/NG/sample_7.wav'' idle_world"
  have reads: "\<forall>j<2. \<not> stop_requested (cancelled_device 2) j \<and> full_read (cancelled_device 2) j"
    by (simp add: cancelled_device_simps full_read_def CHUNK_def SAMPLE_WIDTH_def CHANNELS_def)
  have t: "frames ?w = map (chunk_at (cancelled_device 2)) [0..<2]
    \<and> (\<exists>bs wav. files ?w ''output/NG/sample_7.wav'' = Some bs \<and> wave_read bs = Inr wav
          \<and> payload wav = concat (map (chunk_at (cancelled_device 2)) [0..<2])
          \<and> length (payload wav) = 2 * (CHUNK * SAMPLE_WIDTH * CHANNELS))
    \<and> last (trace ?w) = RecordingComplete True (''Saved to '' @ ''output/NG/sample_7.wav'')"
    by (rule cancelled_capture_keeps_frames
          [where needed = 46, OF cancelled_device_simps(1-4) _ _ _ reads])
       (simp_all add: chunks_needed_1 cancelled_device_simps CHUNK_def SAMPLE_WIDTH_def
          CHANNELS_def)
  have u: "[0..<2] = [0, Suc 0]"
    by (simp add: upt_rec)
  from t have "frames ?w = [replicate 2048 0, replicate 2048 0]
    \<and> (\<exists>bs wav. files ?w ''output/NG/sample_7.wav'' = Some bs \<and> wave_read bs = Inr wav
          \<and> payload wav = replicate 2048 0 @ replicate 2048 0
          \<and> length (payload wav) = 4096)
    \<and> last (trace ?w) = RecordingComplete True ''Saved to output/NG/sample_7.wav''"
    by (simp add: u chunk_at_def cancelled_device_simps CHUNK_def SAMPLE_WIDTH_def CHANNELS_def)
  then show ?thesis by blast
qed

text \<open>
  Claim C10. A run that captures no chunk, because \<^verbatim>\<open>chunks_needed\<close> is computed as
  0 or because the flag is found cleared before the first read, still closes the stream, writes a 44-byte
  file whose header reads back as mono, 16-bit, 48000 Hz with an empty payload, and emits
  \<^verbatim>\<open>recording_complete(True, ...)\<close>.
\<close>

theorem zero_chunk_capture_writes_empty_wav:
  assumes "open_error dev = None" "stop_error dev = None" "close_error dev = None"
    and "wave_open_error dev path = None"
    and "chunks_needed (float_round dev) D = Inr n"
    and "n = 0 \<or> stop_requested dev 0"
  shows "(\<exists>bs. files (record_thread dev D path w) path = Some bs \<and> length bs = 44
           \<and> wave_read bs = Inr \<lparr>nchannels = 1, sampwidth = 2, framerate = 48000,
                                  payload = []\<rparr>)
    \<and> frames (record_thread dev D path w) = []
    \<and> trace (record_thread dev D path w) =
        trace w @ [StreamOpen, StreamStop, StreamClose,
                   RecordingComplete True (''Saved to '' @ path)]"
proof -
  have run: "0 \<le> nat n"
      "\<forall>j<0. \<not> stop_requested dev j \<and> good_read dev j"
      "0 = nat n \<or> stop_requested dev 0"
    using assms(6) by auto
  have "36 + length (concat (map (chunk_at dev) [0..<0])) < 2 ^ 32"
    by simp
  from record_thread_saved [OF assms(1-3) assms(5) run assms(4) this, of w]
  obtain bs where
    bs: "record_thread dev D path w =
       (captured dev 0 w)\<lparr>is_recording := False, files := (files w)(path \<mapsto> bs),
          trace := trace (captured dev 0 w) @ [RecordingComplete True (''Saved to '' @ path)]\<rparr>"
      "length bs = 44 + length (concat (map (chunk_at dev) [0..<0]))"
      "wave_read bs = Inr \<lparr>nchannels = 1, sampwidth = 2, framerate = 48000,
                          payload = concat (map (chunk_at dev) [0..<0])\<rparr>"
    by blast
  have 1: "\<exists>bs. files (record_thread dev D path w) path = Some bs \<and> length bs = 44
           \<and> wave_read bs = Inr \<lparr>nchannels = 1, sampwidth = 2, framerate = 48000,
                                  payload = []\<rparr>"
    using bs(2,3) by (intro exI [of _ bs]) (simp add: bs(1))
  have 2: "frames (record_thread dev D path w) = []"
    by (simp add: bs(1) captured_def)
  have 3: "trace (record_thread dev D path w) =
        trace w @ [StreamOpen, StreamStop, StreamClose,
                   RecordingComplete True (''Saved to '' @ path)]"
    by (simp add: bs(1) captured_def)
  from 1 2 3 show ?thesis by blast
qed

theorem zero_chunk_capture_writes_empty_wav_witness:
  "(\<exists>bs. files (record_thread (cancelled_device 0) 5 ''output/OK/sample_1.wav'' idle_world)
            ''output/OK/sample_1.wav'' = Some bs \<and> length bs = 44
         \<and> wave_read bs = Inr \<lparr>nchannels = 1, sampwidth = 2, framerate = 48000,
                                payload = []\<rparr>)
   \<and> trace (record_thread (cancelled_device 0) 5 ''output/OK/sample_1.wav'' idle_world) =
       [StreamOpen, StreamStop, StreamClose,
        RecordingComplete True ''Saved to output/OK/sample_1.wav'']"
  using zero_chunk_capture_writes_empty_wav
    [of "cancelled_device 0" "''output/OK/sample_1.wav''" 5 234 idle_world]
  by (simp add: cancelled_device_simps chunks_needed_5 idle_world_def)

section \<open>Writing a file and reading it back\<close>

text \<open>
  Claim C9. \<^verbatim>\<open>_save_wav\<close> returns normally whenever the file can be opened and the
  joined frames fit the 32-bit length fields of the container; and whenever it returns
  normally, reading the file back gives one channel, sample width 2, rate 48000 and a
  payload equal, byte for byte, to the frames joined in their order.
\<close>

theorem save_wav_roundtrip:
  "(wave_open_error dev filename = None \<and> 36 + length (concat (frames w)) < 2 ^ 32 \<longrightarrow>
      fst (save_wav dev filename w) = Inr ())
   \<and> (\<forall>w'. save_wav dev filename w = (Inr (), w') \<longrightarrow>
        (\<exists>bs. files w' filename = Some bs
           \<and> wave_read bs = Inr \<lparr>nchannels = 1, sampwidth = 2, framerate = 48000,
                                  payload = concat (frames w)\<rparr>))"
proof (intro conjI impI allI)
  assume "wave_open_error dev filename = None \<and> 36 + length (concat (frames w)) < 2 ^ 32"
  then have "wave_open_error dev filename = None" "36 + length (concat (frames w)) < 2 ^ 32"
    by simp_all
  from save_wav_run [OF this] show "fst (save_wav dev filename w) = Inr ()"
    by auto
next
  fix w'
  assume s: "save_wav dev filename w = (Inr (), w')"
  from save_wav_run [OF save_wav_file(2) [OF s] save_wav_file(1) [OF s]] obtain bs where
    bs: "save_wav dev filename w = (Inr (), w\<lparr>files := (files w)(filename \<mapsto> bs)\<rparr>)"
      "wave_read bs = Inr \<lparr>nchannels = 1, sampwidth = 2, framerate = 48000,
                          payload = concat (frames w)\<rparr>"
    by blast
  from s bs(1) have "w' = w\<lparr>files := (files w)(filename \<mapsto> bs)\<rparr>"
    by simp
  then have "files w' filename = Some bs"
    by simp
  with bs(2) show "\<exists>bs. files w' filename = Some bs
           \<and> wave_read bs = Inr \<lparr>nchannels = 1, sampwidth = 2, framerate = 48000,
                                  payload = concat (frames w)\<rparr>"
    by blast
qed

theorem save_wav_roundtrip_witness:
  "fst (save_wav silent_device ''a.wav'' two_chunk_world) = Inr ()
   \<and> (\<exists>bs. files (snd (save_wav silent_device ''a.wav'' two_chunk_world)) ''a.wav'' = Some bs
         \<and> wave_read bs = Inr \<lparr>nchannels = 1, sampwidth = 2, framerate = 48000,
                                payload = [1, 2, 3, 4]\<rparr>)"
proof -
  note t = save_wav_roundtrip [of silent_device "''a.wav''" two_chunk_world]
  have fr: "concat (frames two_chunk_world) = [1, 2, 3, 4]"
    by (simp add: two_chunk_world_def)
  from t have ok: "fst (save_wav silent_device ''a.wav'' two_chunk_world) = Inr ()"
    by (simp add: silent_device_simps fr)
  then have "save_wav silent_device ''a.wav'' two_chunk_world =
     (Inr (), snd (save_wav silent_device ''a.wav'' two_chunk_world))"
    by (simp add: prod_eq_iff)
  with t have "\<exists>bs. files (snd (save_wav silent_device ''a.wav'' two_chunk_world)) ''a.wav''
          = Some bs
         \<and> wave_read bs = Inr \<lparr>nchannels = 1, sampwidth = 2, framerate = 48000,
                                payload = concat (frames two_chunk_world)\<rparr>"
    by blast
  with ok show ?thesis by (simp only: fr) 
qed

section \<open>The level meter\<close>

lemma py_int_mono: "x \<le> y \<Longrightarrow> py_int x \<le> py_int y"
proof -
  assume xy: "x \<le> y"
  consider "0 \<le> x" | "x < 0" "0 \<le> y" | "y < 0" using xy by linarith
  then show ?thesis
  proof cases
    case 1
    then show ?thesis using xy by (simp add: py_int_def floor_mono)
  next
    case 2
    then have "\<lceil>x\<rceil> \<le> 0" "0 \<le> \<lfloor>y\<rfloor>" by (simp_all add: ceiling_le_iff)
    then have "\<lceil>x\<rceil> \<le> \<lfloor>y\<rfloor>" by (rule order_trans)
    then show ?thesis using 2 by (simp add: py_int_def)
  next
    case 3
    then show ?thesis using xy by (simp add: py_int_def ceiling_mono)
  qed
qed

lemma fl_nonneg: "mono fl \<Longrightarrow> fl 0 = 0 \<Longrightarrow> 0 \<le> x \<Longrightarrow> 0 \<le> fl (x::real)"
  by (metis monoD)

lemma level_of_rms_mono:
  assumes "mono fl" "r1 \<le> r2"
  shows "level_of_rms fl r1 \<le> level_of_rms fl r2"
proof -
  have "fl (r1 / 32768) \<le> fl (r2 / 32768)"
    using assms by (simp add: monoD divide_right_mono)
  then have "fl (fl (r1 / 32768) * 100) \<le> fl (fl (r2 / 32768) * 100)"
    using assms(1) by (simp add: monoD)
  then have "py_int (fl (fl (r1 / 32768) * 100)) \<le> py_int (fl (fl (r2 / 32768) * 100))"
    by (rule py_int_mono)
  then show ?thesis by (simp add: level_of_rms_def)
qed

lemma level_of_rms_zero: "fl 0 = 0 \<Longrightarrow> level_of_rms fl 0 = 0"
  by (simp add: level_of_rms_def py_int_def)

lemma level_of_rms_range:
  assumes "mono fl" "fl 0 = 0" "0 \<le> r"
  shows "0 \<le> level_of_rms fl r" "level_of_rms fl r \<le> 100"
proof -
  have "level_of_rms fl 0 \<le> level_of_rms fl r"
    using assms(1,3) by (rule level_of_rms_mono)
  then show "0 \<le> level_of_rms fl r"
    by (simp add: level_of_rms_zero assms(2))
  show "level_of_rms fl r \<le> 100"
    by (simp add: level_of_rms_def)
qed

lemma sum_squares_nonneg: "0 \<le> (\<Sum>x\<leftarrow>xs. (real_of_int (sint (x::int16)))\<^sup>2)"
  by (induction xs) simp_all

lemma mean_square_nonneg:
  assumes "mono fl" "fl 0 = 0"
  shows "0 \<le> mean_square fl xs"
  unfolding mean_square_def
proof (rule fl_nonneg [OF assms])
  show "0 \<le> (\<Sum>x\<leftarrow>xs. (real_of_int (sint x))\<^sup>2) / real (length xs)"
    by (rule divide_nonneg_nonneg [OF sum_squares_nonneg]) simp
qed

lemma rms_nonneg:
  assumes "mono fl" "fl 0 = 0"
  shows "0 \<le> rms fl xs"
  unfolding rms_def
  by (rule fl_nonneg [OF assms]) (simp add: mean_square_nonneg [OF assms])

lemma compute_level_nonempty:
  assumes "mono fl" "fl 0 = 0" "xs \<noteq> []"
  shows "compute_level fl xs = level_of_rms fl (rms fl xs)"
  using assms(3) by (simp add: compute_level_def mean_square_nonneg [OF assms(1,2)])

lemma sum_squares_zero:
  "\<forall>x\<in>set xs. x = 0 \<Longrightarrow> (\<Sum>x\<leftarrow>xs. (real_of_int (sint (x::int16)))\<^sup>2) = 0"
  by (induction xs) simp_all

lemma rms_silence:
  assumes "fl 0 = 0" "\<forall>x\<in>set xs. x = 0"
  shows "rms fl xs = 0"
  unfolding rms_def mean_square_def sum_squares_zero [OF assms(2)]
  by (simp add: assms(1))

text \<open>
  Claim C3. For every rounding of the float operations that is monotone and keeps zero, the
  level of a chunk is an integer between 0 and 100; it is 0 for the empty chunk and for a
  chunk of zeros; and for non-empty chunks it does not decrease when the RMS amplitude
  grows. The function is total: it returns a level for every chunk.
\<close>

theorem compute_level_properties:
  assumes "mono fl" "fl 0 = 0"
  shows "0 \<le> compute_level fl xs \<and> compute_level fl xs \<le> 100
    \<and> compute_level fl [] = 0
    \<and> ((\<forall>x\<in>set xs. x = 0) \<longrightarrow> compute_level fl xs = 0)
    \<and> (xs \<noteq> [] \<and> ys \<noteq> [] \<and> rms fl xs \<le> rms fl ys \<longrightarrow>
         compute_level fl xs \<le> compute_level fl ys)"
proof -
  have range: "0 \<le> compute_level fl xs \<and> compute_level fl xs \<le> 100"
  proof (cases "xs = []")
    case True
    then show ?thesis by (simp add: compute_level_def)
  next
    case False
    then show ?thesis
      using level_of_rms_range [OF assms rms_nonneg [OF assms], of xs]
      by (simp add: compute_level_nonempty [OF assms])
  qed
  have empty: "compute_level fl [] = 0"
    by (simp add: compute_level_def)
  have silence: "compute_level fl xs = 0" if z: "\<forall>x\<in>set xs. x = 0"
  proof (cases "xs = []")
    case True
    then show ?thesis by (simp add: compute_level_def)
  next
    case False
    then show ?thesis
      by (simp add: compute_level_nonempty [OF assms] rms_silence [of fl xs, OF assms(2) z]
          level_of_rms_zero assms(2))
  qed
  have monot: "compute_level fl xs \<le> compute_level fl ys"
    if "xs \<noteq> [] \<and> ys \<noteq> [] \<and> rms fl xs \<le> rms fl ys"
    using that level_of_rms_mono [OF assms(1), of "rms fl xs" "rms fl ys"]
    by (simp add: compute_level_nonempty [OF assms])
  from range empty silence monot show ?thesis by blast
qed

theorem compute_level_properties_witness:
  "compute_level (\<lambda>x. x) [0, 0] = 0
   \<and> 0 \<le> compute_level (\<lambda>x. x) [16384, - 16384]
   \<and> compute_level (\<lambda>x. x) [16384, - 16384] \<le> 100
   \<and> compute_level (\<lambda>x. x) [0, 0] \<le> compute_level (\<lambda>x. x) [16384, - 16384]"
proof -
  have m: "mono (\<lambda>x::real. x)" by (simp add: mono_def)
  have z: "(\<lambda>x::real. x) 0 = 0" by simp
  have r: "rms (\<lambda>x. x) [0, 0] \<le> rms (\<lambda>x. x) [16384, - 16384]"
    by (simp add: rms_def mean_square_def)
  from compute_level_properties [OF m z, of "[0, 0]" "[16384, - 16384]"]
  have a: "compute_level (\<lambda>x. x) [0, 0] = 0"
    and c: "compute_level (\<lambda>x. x) [0, 0] \<le> compute_level (\<lambda>x. x) [16384, - 16384]"
    using r by simp_all
  from compute_level_properties [OF m z, of "[16384, - 16384]" "[]"]
  have b: "0 \<le> compute_level (\<lambda>x. x) [16384, - 16384]
     \<and> compute_level (\<lambda>x. x) [16384, - 16384] \<le> 100"
    by blast
  from a b c show ?thesis by blast
qed

lemma level_half_scale: "compute_level (\<lambda>x. x) [16384, - 16384] = 50"
proof -
  have s: "sqrt 268435456 = 16384"
    by (rule real_sqrt_unique) simp_all
  show ?thesis
    by (simp add: compute_level_def mean_square_def rms_def level_of_rms_def py_int_def s)
qed

section \<open>Errors during a capture run\<close>

lemma record_loop_read_error:
  assumes "0 < n" "\<not> stop_requested dev i" "read_chunk dev i = Inl e"
  shows "record_loop dev i n w = (Inl e, w)"
proof -
  from assms(1) obtain m where "n = Suc m" by (cases n) simp_all
  then show ?thesis by (simp add: assms(2,3))
qed

lemma unplugged_device_simps:
  "open_error unplugged_device = None" "stop_requested unplugged_device i = False"
  "read_chunk unplugged_device i = Inl ''Unanticipated host error''"
  "float_round unplugged_device = (\<lambda>x. x)"
  by (simp_all add: unplugged_device_def silent_device_def)

lemma record_try_unplugged:
  "record_try unplugged_device 1 path idle_world =
     (Inl ''Unanticipated host error'',
      idle_world\<lparr>is_recording := True, trace := [StreamOpen]\<rparr>)"
proof -
  have "record_loop unplugged_device 0 (nat 46) w =
      (Inl ''Unanticipated host error'', w)" for w
    by (rule record_loop_read_error) (simp_all add: unplugged_device_simps)
  then show ?thesis
    by (simp add: record_try_def unplugged_device_simps chunks_needed_1 emit_def
        idle_world_def)
qed

text \<open>
  Claim C5, at the input where the code does otherwise: the microphone is unplugged once
  the stream is open, so the first \<^verbatim>\<open>stream.read\<close> raises. The run ends with the failure
  event and the stream is neither stopped nor closed.
\<close>

theorem stream_left_open_on_read_error:
  "trace (record_thread unplugged_device 1 ''output/OK/sample_1.wav'' idle_world) =
     [StreamOpen, RecordingComplete False ''Error: Unanticipated host error'']
   \<and> StreamClose \<notin> set (trace (record_thread unplugged_device 1 ''output/OK/sample_1.wav''
        idle_world))"
  by (simp add: record_thread_def record_try_unplugged emit_def)

lemma is_completion_simps:
  "\<not> is_completion StreamOpen" "\<not> is_completion StreamRead" "\<not> is_completion (LevelUpdate l)"
  "\<not> is_completion StreamStop" "\<not> is_completion StreamClose"
  "is_completion (RecordingComplete ok msg)"
  by (simp_all add: is_completion_def)

lemma record_loop_trace:
  "\<exists>es. trace (snd (record_loop dev i n w)) = trace w @ es \<and> (\<forall>x\<in>set es. \<not> is_completion x)"
proof (induction n arbitrary: i w)
  case 0
  then show ?case by simp
next
  case (Suc n)
  show ?case
  proof (cases "stop_requested dev i")
    case True
    then show ?thesis by simp
  next
    case False
    show ?thesis
    proof (cases "read_chunk dev i")
      case (Inl e)
      then show ?thesis using False by simp
    next
      case (Inr data)
      let ?w1 = "emit StreamRead (w\<lparr>frames := frames w @ [data]\<rparr>)"
      show ?thesis
      proof (cases "frombuffer_int16 data")
        case (Inl e)
        have "trace ?w1 = trace w @ [StreamRead]" by (simp add: emit_def)
        then show ?thesis
          using False Inr Inl by (simp add: is_completion_simps Let_def)
      next
        case r: (Inr audio_data)
        let ?w2 = "emit (LevelUpdate (compute_level (float_round dev) audio_data)) ?w1"
        from Suc.IH [of "Suc i" ?w2] obtain es where
          es: "trace (snd (record_loop dev (Suc i) n ?w2)) = trace ?w2 @ es"
            "\<forall>x\<in>set es. \<not> is_completion x"
          by blast
        have "trace ?w2 = trace w @ [StreamRead, LevelUpdate (compute_level (float_round dev) audio_data)]"
          by (simp add: emit_def)
        with es have "trace (snd (record_loop dev (Suc i) n ?w2)) =
            trace w @ ([StreamRead, LevelUpdate (compute_level (float_round dev) audio_data)] @ es)
          \<and> (\<forall>x\<in>set ([StreamRead, LevelUpdate (compute_level (float_round dev) audio_data)] @ es).
                \<not> is_completion x)"
          by (simp add: is_completion_simps)
        then have "\<exists>es. trace (snd (record_loop dev (Suc i) n ?w2)) = trace w @ es
          \<and> (\<forall>x\<in>set es. \<not> is_completion x)"
          by blast
        then show ?thesis
          using False Inr r by (simp add: Let_def)
      qed
    qed
  qed
qed

lemma record_try_trace:
  "\<exists>es. (\<forall>x\<in>set es. \<not> is_completion x)
     \<and> (case fst (record_try dev D path w) of
           Inl e \<Rightarrow> trace (snd (record_try dev D path w)) = trace w @ es
         | Inr u \<Rightarrow>
             trace (snd (record_try dev D path w)) =
               trace w @ es @ [RecordingComplete True (''Saved to '' @ path)]
             \<and> \<not> is_recording (snd (record_try dev D path w)))"
proof -
  have err: ?thesis
    if "record_try dev D path w = (Inl e, X)" "trace X = trace w @ es"
      "\<forall>x\<in>set es. \<not> is_completion x" for e X es
    using that by (intro exI [of _ es]) simp
  have ok: ?thesis
    if "record_try dev D path w = (Inr (), X)"
      "trace X = trace w @ es @ [RecordingComplete True (''Saved to '' @ path)]"
      "\<forall>x\<in>set es. \<not> is_completion x" "\<not> is_recording X" for X es
    using that by (intro exI [of _ es]) simp
  show ?thesis
  proof (cases "open_error dev")
    case (Some e)
    then have "record_try dev D path w = (Inl e, w\<lparr>is_recording := True, frames := []\<rparr>)"
      by (simp add: record_try_def)
    then show ?thesis by (rule err [of _ _ "[]"]) simp_all
  next
    case None
    let ?w1 = "emit StreamOpen (w\<lparr>is_recording := True, frames := []\<rparr>)"
    show ?thesis
    proof (cases "chunks_needed (float_round dev) D")
      case (Inl e)
      then have "record_try dev D path w = (Inl e, ?w1)"
        by (simp add: record_try_def None)
      moreover have "trace ?w1 = trace w @ [StreamOpen]"
        by (simp add: emit_def)
      moreover have "\<forall>x\<in>set [StreamOpen]. \<not> is_completion x"
        by (simp add: is_completion_simps)
      ultimately show ?thesis by (rule err)
    next
    case cnt: (Inr needed)
    obtain r w2 where loop: "record_loop dev 0 (nat needed) ?w1 = (r, w2)"
      by (cases "record_loop dev 0 (nat needed) ?w1")
    from record_loop_trace [of dev 0 "nat needed" ?w1] obtain es1 where
      es1: "trace w2 = trace ?w1 @ es1" "\<forall>x\<in>set es1. \<not> is_completion x"
      by (auto simp: loop)
    have t2: "trace w2 = trace w @ (StreamOpen # es1)"
      using es1(1) by (simp add: emit_def)
    have n2: "\<forall>x\<in>set (StreamOpen # es1). \<not> is_completion x"
      using es1(2) by (simp add: is_completion_simps)
    show ?thesis
    proof (cases r)
      case (Inl e)
      then have "record_try dev D path w = (Inl e, w2)"
        by (simp add: record_try_def None cnt loop)
      then show ?thesis using t2 n2 by (rule err)
    next
      case (Inr u)
      show ?thesis
      proof (cases "stop_error dev")
        case (Some e)
        then have "record_try dev D path w = (Inl e, w2)"
          by (simp add: record_try_def None cnt loop Inr)
        then show ?thesis using t2 n2 by (rule err)
      next
        case sn: None
        show ?thesis
        proof (cases "close_error dev")
          case (Some e)
          then have "record_try dev D path w = (Inl e, emit StreamStop w2)"
            by (simp add: record_try_def None cnt loop Inr sn)
          moreover have "trace (emit StreamStop w2) =
              trace w @ (StreamOpen # es1 @ [StreamStop])"
            using t2 by (simp add: emit_def)
          moreover have "\<forall>x\<in>set (StreamOpen # es1 @ [StreamStop]). \<not> is_completion x"
            using n2 by (simp add: is_completion_simps)
          ultimately show ?thesis by (rule err)
        next
          case cn: None
          let ?w4 = "emit StreamClose (emit StreamStop w2)"
          obtain rs w5 where sv: "save_wav dev path ?w4 = (rs, w5)"
            by (cases "save_wav dev path ?w4")
          have t5: "trace w5 = trace w @ (StreamOpen # es1 @ [StreamStop, StreamClose])"
            using save_wav_keeps(2) [OF sv] t2 by (simp add: emit_def)
          have n5: "\<forall>x\<in>set (StreamOpen # es1 @ [StreamStop, StreamClose]).
              \<not> is_completion x"
            using n2 by (simp add: is_completion_simps)
          show ?thesis
          proof (cases rs)
            case (Inl e)
            then have "record_try dev D path w = (Inl e, w5)"
              by (simp add: record_try_def None cnt loop Inr sn cn sv)
            then show ?thesis using t5 n5 by (rule err)
          next
            case rr: (Inr u')
            let ?w6 = "emit (RecordingComplete True (''Saved to '' @ path))
                         (w5\<lparr>is_recording := False\<rparr>)"
            have "record_try dev D path w = (Inr (), ?w6)"
              by (simp add: record_try_def None cnt loop Inr sn cn sv rr)
            moreover have "trace ?w6 = trace w @ (StreamOpen # es1 @ [StreamStop, StreamClose])
                        @ [RecordingComplete True (''Saved to '' @ path)]"
              using t5 by (simp add: emit_def)
            moreover note n5
            moreover have "\<not> is_recording ?w6"
              by (simp add: emit_def)
            ultimately show ?thesis by (rule ok)
          qed
        qed
      qed
    qed
    qed
  qed
qed

text \<open>
  Claim C7. \<^verbatim>\<open>_record_thread\<close> always returns, with \<^verbatim>\<open>is_recording\<close> cleared, and the
  events it adds end with exactly one \<^verbatim>\<open>recording_complete\<close>. Whenever anything in its
  \<^verbatim>\<open>try\<close> raises (opening the stream, a read, the conversion of a chunk, stopping or
  closing the stream, opening or writing the file), that event carries \<^verbatim>\<open>False\<close> and the
  message \<^verbatim>\<open>"Error: "\<close> followed by the text of the exception; otherwise it carries
  \<^verbatim>\<open>True\<close>.
\<close>

theorem capture_errors_become_failure_event:
  "\<exists>es ok msg.
     trace (record_thread dev D path w) = trace w @ es @ [RecordingComplete ok msg]
     \<and> (\<forall>x\<in>set es. \<not> is_completion x)
     \<and> \<not> is_recording (record_thread dev D path w)
     \<and> (\<forall>e. fst (record_try dev D path w) = Inl e \<longrightarrow> \<not> ok \<and> msg = ''Error: '' @ e)
     \<and> (fst (record_try dev D path w) = Inr () \<longrightarrow> ok)"
proof -
  obtain r w' where rt: "record_try dev D path w = (r, w')"
    by (cases "record_try dev D path w")
  from record_try_trace [of dev D path w] obtain es where
    n: "\<forall>x\<in>set es. \<not> is_completion x" and
    c: "case fst (record_try dev D path w) of
           Inl e \<Rightarrow> trace (snd (record_try dev D path w)) = trace w @ es
         | Inr u \<Rightarrow>
             trace (snd (record_try dev D path w)) =
               trace w @ es @ [RecordingComplete True (''Saved to '' @ path)]
             \<and> \<not> is_recording (snd (record_try dev D path w))"
    by blast
  show ?thesis
  proof (cases r)
    case (Inl e)
    with c have "trace w' = trace w @ es" by (simp add: rt)
    then have "trace (record_thread dev D path w) =
        trace w @ es @ [RecordingComplete False (''Error: '' @ e)]
      \<and> \<not> is_recording (record_thread dev D path w)"
      by (simp add: record_thread_def rt Inl emit_def)
    with n show ?thesis
      by (intro exI [of _ es] exI [of _ False] exI [of _ "''Error: '' @ e"])
         (simp add: rt Inl)
  next
    case (Inr u)
    with c have "trace w' = trace w @ es @ [RecordingComplete True (''Saved to '' @ path)]"
      "\<not> is_recording w'" by (simp_all add: rt)
    then have "trace (record_thread dev D path w) =
        trace w @ es @ [RecordingComplete True (''Saved to '' @ path)]
      \<and> \<not> is_recording (record_thread dev D path w)"
      by (simp add: record_thread_def rt Inr)
    with n show ?thesis
      by (intro exI [of _ es] exI [of _ True] exI [of _ "''Saved to '' @ path"])
         (simp add: rt Inr)
  qed
qed

theorem capture_errors_become_failure_event_witness:
  "fst (record_try unplugged_device 1 ''output/OK/sample_1.wav'' idle_world) =
     Inl ''Unanticipated host error''
   \<and> (\<exists>es. trace (record_thread unplugged_device 1 ''output/OK/sample_1.wav'' idle_world) =
          es @ [RecordingComplete False ''Error: Unanticipated host error''])"
proof -
  have f: "fst (record_try unplugged_device 1 ''output/OK/sample_1.wav'' idle_world) =
     Inl ''Unanticipated host error''"
    by (simp add: record_try_unplugged)
  from capture_errors_become_failure_event
    [of unplugged_device 1 "''output/OK/sample_1.wav''" idle_world]
  obtain es ok msg where
    t: "trace (record_thread unplugged_device 1 ''output/OK/sample_1.wav'' idle_world) =
          trace idle_world @ es @ [RecordingComplete ok msg]"
    and e: "\<forall>e. fst (record_try unplugged_device 1 ''output/OK/sample_1.wav'' idle_world)
          = Inl e \<longrightarrow> \<not> ok \<and> msg = ''Error: '' @ e"
    by blast
  from e f have "\<not> ok \<and> msg = ''Error: '' @ ''Unanticipated host error''"
    by blast
  with t have "trace (record_thread unplugged_device 1 ''output/OK/sample_1.wav'' idle_world) =
          es @ [RecordingComplete False ''Error: Unanticipated host error'']"
    by (simp add: idle_world_def)
  with f show ?thesis by blast
qed

section \<open>Playback\<close>

lemma play_loop_end: "take n rest = [] \<Longrightarrow> play_loop dev n i rest w = (Inr (), w)"
  by (subst play_loop.simps) simp

lemma play_loop_step:
  "take n rest \<noteq> [] \<Longrightarrow> out_write_error dev i = None \<Longrightarrow>
   play_loop dev n i rest w =
     play_loop dev n (Suc i) (drop n rest) (emit (OutputWrite (take n rest)) w)"
  by (subst play_loop.simps) simp

lemma play_loop_extends:
  "\<exists>es. trace (snd (play_loop dev n i rest w)) = trace w @ es"
proof (induction dev n i rest w rule: play_loop.induct)
  case (1 dev n i rest w)
  show ?case
  proof (cases "take n rest = []")
    case True
    then show ?thesis by (simp add: play_loop_end)
  next
    case False
    show ?thesis
    proof (cases "out_write_error dev i")
      case (Some e)
      with False have "play_loop dev n i rest w = (Inl e, w)"
        by (subst play_loop.simps) simp
      then show ?thesis by simp
    next
      case None
      from "1.IH" [OF False None] obtain es where
        "trace (snd (play_loop dev n (Suc i) (drop n rest) (emit (OutputWrite (take n rest)) w)))
           = trace (emit (OutputWrite (take n rest)) w) @ es"
        by blast
      then have "trace (snd (play_loop dev n i rest w)) = trace w @ (OutputWrite (take n rest) # es)"
        by (simp add: play_loop_step [OF False None] emit_def)
      then show ?thesis by blast
    qed
  qed
qed

lemma silent_output_simps:
  "out_open_error silent_device = None" "out_write_error silent_device i = None"
  "out_stop_error silent_device = None" "out_close_error silent_device = None"
  by (simp_all add: silent_device_def)

lemma wave_read_eight_bit:
  "wave_read eight_bit_file =
     Inr \<lparr>nchannels = 1, sampwidth = 1, framerate = 48000, payload = [1, 2, 3]\<rparr>"
proof -
  have n1: "next_chunk eight_bit_file 39 4 =
      FmtChunk \<lparr>nchannels = 1, sampwidth = 1, framerate = 48000\<rparr> 28"
    by (simp add: next_chunk_def read_fmt_chunk_def sub_read_def sub_skip_def riff_read_def
        eight_bit_file_def fmt_id_def data_id_def WAVE_FORMAT_PCM_def Let_def)
  have n2: "next_chunk eight_bit_file 39 28 = DataChunk 3 36"
    by (simp add: next_chunk_def riff_read_def eight_bit_file_def fmt_id_def data_id_def
        Let_def)
  have d: "take (min 3 (39 - 36)) (drop (8 + 36) eight_bit_file) = [1, 2, 3]"
    by (simp add: eight_bit_file_def)
  have c2: "read_chunks eight_bit_file 39 28
      (Some \<lparr>nchannels = 1, sampwidth = 1, framerate = 48000\<rparr>) =
     Inr \<lparr>nchannels = 1, sampwidth = 1, framerate = 48000, payload = [1, 2, 3]\<rparr>"
    by (subst read_chunks.simps) (simp only: n2 d chunk_step.case option.case wav_params.simps)
  have c1: "read_chunks eight_bit_file 39 4 None =
     Inr \<lparr>nchannels = 1, sampwidth = 1, framerate = 48000, payload = [1, 2, 3]\<rparr>"
    by (subst read_chunks.simps) (simp only: n1 c2 chunk_step.case)
  have h: "take 4 eight_bit_file = riff_id" "take 4 (drop 4 eight_bit_file) = [39, 0, 0, 0]"
    "riff_read eight_bit_file 39 0 4 = (wave_id, 4)"
    by (simp_all add: riff_read_def eight_bit_file_def riff_id_def wave_id_def Let_def)
  have v: "le_value [39, 0, 0, 0] = 39"
    by simp
  show ?thesis
    unfolding wave_read_def h v by (simp add: c1 riff_id_def)
qed

lemma wave_read_list_chunk:
  "wave_read list_chunk_file =
     Inr \<lparr>nchannels = 1, sampwidth = 2, framerate = 48000, payload = [1, 2, 3, 4]\<rparr>"
proof -
  have n1: "next_chunk list_chunk_file 52 4 =
      FmtChunk \<lparr>nchannels = 1, sampwidth = 2, framerate = 48000\<rparr> 28"
    by (simp add: next_chunk_def read_fmt_chunk_def sub_read_def sub_skip_def riff_read_def
        list_chunk_file_def fmt_id_def data_id_def WAVE_FORMAT_PCM_def Let_def)
  have n2: "next_chunk list_chunk_file 52 28 = OtherChunk 40"
    by (simp add: next_chunk_def sub_skip_def riff_read_def list_chunk_file_def fmt_id_def
        data_id_def Let_def)
  have n3: "next_chunk list_chunk_file 52 40 = DataChunk 4 48"
    by (simp add: next_chunk_def riff_read_def list_chunk_file_def fmt_id_def data_id_def
        Let_def)
  have d: "take (min 4 (52 - 48)) (drop (8 + 48) list_chunk_file) = [1, 2, 3, 4]"
    by (simp add: list_chunk_file_def)
  have c3: "read_chunks list_chunk_file 52 40
      (Some \<lparr>nchannels = 1, sampwidth = 2, framerate = 48000\<rparr>) =
     Inr \<lparr>nchannels = 1, sampwidth = 2, framerate = 48000, payload = [1, 2, 3, 4]\<rparr>"
    by (subst read_chunks.simps) (simp only: n3 d chunk_step.case option.case wav_params.simps)
  have c2: "read_chunks list_chunk_file 52 28
      (Some \<lparr>nchannels = 1, sampwidth = 2, framerate = 48000\<rparr>) =
     Inr \<lparr>nchannels = 1, sampwidth = 2, framerate = 48000, payload = [1, 2, 3, 4]\<rparr>"
    by (subst read_chunks.simps) (simp only: n2 c3 chunk_step.case)
  have c1: "read_chunks list_chunk_file 52 4 None =
     Inr \<lparr>nchannels = 1, sampwidth = 2, framerate = 48000, payload = [1, 2, 3, 4]\<rparr>"
    by (subst read_chunks.simps) (simp only: n1 c2 chunk_step.case)
  have h: "take 4 list_chunk_file = riff_id" "take 4 (drop 4 list_chunk_file) = [52, 0, 0, 0]"
    "riff_read list_chunk_file 52 0 4 = (wave_id, 4)"
    by (simp_all add: riff_read_def list_chunk_file_def riff_id_def wave_id_def Let_def)
  have v: "le_value [52, 0, 0, 0] = 52"
    by simp
  show ?thesis
    unfolding wave_read_def h v by (simp add: c1 riff_id_def)
qed

lemma wave_read_zero_size: "wave_read zero_size_file = Inl ''not a WAVE file''"
  by (simp add: wave_read_def riff_read_def zero_size_file_def riff_id_def wave_id_def)

lemma wave_read_short_riff:
  "wave_read short_riff_file =
     Inr \<lparr>nchannels = 1, sampwidth = 2, framerate = 48000, payload = [1]\<rparr>"
proof -
  have n1: "next_chunk short_riff_file 37 4 =
      FmtChunk \<lparr>nchannels = 1, sampwidth = 2, framerate = 48000\<rparr> 28"
    by (simp add: next_chunk_def read_fmt_chunk_def sub_read_def sub_skip_def riff_read_def
        short_riff_file_def fmt_id_def data_id_def WAVE_FORMAT_PCM_def Let_def)
  have n2: "next_chunk short_riff_file 37 28 = DataChunk 4 36"
    by (simp add: next_chunk_def riff_read_def short_riff_file_def fmt_id_def data_id_def
        Let_def)
  have d: "take (min 4 (37 - 36)) (drop (8 + 36) short_riff_file) = [1]"
    by (simp add: short_riff_file_def)
  have c2: "read_chunks short_riff_file 37 28
      (Some \<lparr>nchannels = 1, sampwidth = 2, framerate = 48000\<rparr>) =
     Inr \<lparr>nchannels = 1, sampwidth = 2, framerate = 48000, payload = [1]\<rparr>"
    by (subst read_chunks.simps) (simp only: n2 d chunk_step.case option.case wav_params.simps)
  have c1: "read_chunks short_riff_file 37 4 None =
     Inr \<lparr>nchannels = 1, sampwidth = 2, framerate = 48000, payload = [1]\<rparr>"
    by (subst read_chunks.simps) (simp only: n1 c2 chunk_step.case)
  have h: "take 4 short_riff_file = riff_id" "take 4 (drop 4 short_riff_file) = [37, 0, 0, 0]"
    "riff_read short_riff_file 37 0 4 = (wave_id, 4)"
    by (simp_all add: riff_read_def short_riff_file_def riff_id_def wave_id_def Let_def)
  have v: "le_value [37, 0, 0, 0] = 37"
    by simp
  show ?thesis
    unfolding wave_read_def h v by (simp add: c1 riff_id_def)
qed

lemma read_fmt_chunk_pos:
  assumes "read_fmt_chunk bs rsize rpos csize = Inr (p, rpos')"
  shows "0 < nchannels p \<and> 0 < sampwidth p"
  using assms
  by (auto simp: read_fmt_chunk_def split: prod.splits if_splits sum.splits)

lemma next_chunk_fmt_pos:
  assumes "next_chunk bs rsize rpos = FmtChunk p rpos'"
  shows "0 < nchannels p \<and> 0 < sampwidth p"
proof -
  from assms obtain rpos2 csize where
    "read_fmt_chunk bs rsize rpos2 csize = Inr (p, rpos')"
    by (auto simp: next_chunk_def split: prod.splits if_splits sum.splits)
  then show ?thesis by (rule read_fmt_chunk_pos)
qed

lemma read_chunks_pos:
  assumes "read_chunks bs rsize rpos fmt = Inr wav"
    and "\<And>p. fmt = Some p \<Longrightarrow> 0 < nchannels p \<and> 0 < sampwidth p"
  shows "0 < nchannels wav \<and> 0 < sampwidth wav"
  using assms
proof (induction bs rsize rpos fmt rule: read_chunks.induct)
  case (1 bs rsize rpos fmt)
  from "1.prems"(1) have eq:
    "(case next_chunk bs rsize rpos of
        NoChunk \<Rightarrow> Inl ''fmt chunk and/or data chunk missing''
      | Failed e \<Rightarrow> Inl e
      | FmtChunk p rpos' \<Rightarrow> read_chunks bs rsize rpos' (Some p)
      | OtherChunk rpos' \<Rightarrow> read_chunks bs rsize rpos' fmt
      | DataChunk csize rpos' \<Rightarrow>
          (case fmt of
             None \<Rightarrow> Inl ''data chunk before fmt chunk''
           | Some p \<Rightarrow>
               Inr \<lparr>nchannels = nchannels p, sampwidth = sampwidth p, framerate = framerate p,
                     payload = take (min csize (rsize - rpos')) (drop (8 + rpos') bs)\<rparr>)) =
     Inr wav"
    by (subst (asm) read_chunks.simps)
  show ?case
  proof (cases "next_chunk bs rsize rpos")
    case NoChunk
    with eq show ?thesis by simp
  next
    case (Failed e)
    with eq show ?thesis by simp
  next
    case (FmtChunk p rpos')
    with eq have r: "read_chunks bs rsize rpos' (Some p) = Inr wav" by simp
    have "0 < nchannels p \<and> 0 < sampwidth p"
      using FmtChunk by (rule next_chunk_fmt_pos)
    then show ?thesis
      using "1.IH"(1) [OF FmtChunk r] by simp
  next
    case (OtherChunk rpos')
    with eq have r: "read_chunks bs rsize rpos' fmt = Inr wav" by simp
    show ?thesis
      by (rule "1.IH"(2) [OF OtherChunk r]) (rule "1.prems"(2))
  next
    case (DataChunk csize rpos')
    show ?thesis
    proof (cases fmt)
      case None
      with eq DataChunk show ?thesis by simp
    next
      case (Some p)
      with eq DataChunk have "nchannels wav = nchannels p" "sampwidth wav = sampwidth p"
        by auto
      with "1.prems"(2) [OF Some] show ?thesis by simp
    qed
  qed
qed

lemma wave_read_pos:
  assumes "wave_read bs = Inr wav"
  shows "0 < nchannels wav \<and> 0 < sampwidth wav"
proof -
  from assms obtain rsize rpos where "read_chunks bs rsize rpos None = Inr wav"
    by (auto simp: wave_read_def split: prod.splits if_splits)
  then show ?thesis by (rule read_chunks_pos) simp
qed

lemma play_loop_first_write:
  assumes "take n rest \<noteq> []" "out_write_error dev i = None"
  shows "\<exists>es. trace (snd (play_loop dev n i rest w)) =
     trace w @ OutputWrite (take n rest) # es"
proof -
  from play_loop_extends [of dev n "Suc i" "drop n rest" "emit (OutputWrite (take n rest)) w"]
  obtain es where
    "trace (snd (play_loop dev n (Suc i) (drop n rest) (emit (OutputWrite (take n rest)) w)))
       = trace (emit (OutputWrite (take n rest)) w) @ es"
    by blast
  then have "trace (snd (play_loop dev n i rest w)) = trace w @ OutputWrite (take n rest) # es"
    by (simp add: play_loop_step [OF assms] emit_def)
  then show ?thesis by blast
qed

text \<open>
  Claim C6, as stated: a playback that fails emits a completion event with the failure
  flag, and a file with an unsupported sample width fails with a format error before any
  audio is written. Neither happens. A test file that is no WAV file at all is passed to the
  playback thread, which ends without any event; and an 8-bit file is read without
  complaint and its bytes are written to a stream opened for 16-bit samples.
\<close>

theorem playback_failure_has_no_event:
  "play_test silent_device (world_with_test_file [0x52, 0x49]) =
     (True, world_with_test_file [0x52, 0x49])
   \<and> trace (world_with_test_file [0x52, 0x49]) = []
   \<and> trace (snd (play_test silent_device (world_with_test_file eight_bit_file))) =
       [OutputOpen, OutputWrite [1, 2, 3], OutputStop, OutputClose]"
proof -
  have 1: "play_test silent_device (world_with_test_file [0x52, 0x49]) =
     (True, world_with_test_file [0x52, 0x49])"
    by (simp add: play_test_def play_test_thread_def play_test_try_def world_with_test_file_def
        test_path_def wave_read_def)
  have 2: "trace (world_with_test_file [0x52, 0x49]) = []"
    by (simp add: world_with_test_file_def idle_world_def)
  have l: "play_loop silent_device 1024 0 [1, 2, 3] w =
      (Inr (), emit (OutputWrite [1, 2, 3]) w)" for w
    by (simp add: play_loop_step play_loop_end silent_output_simps)
  have 3: "trace (snd (play_test silent_device (world_with_test_file eight_bit_file))) =
       [OutputOpen, OutputWrite [1, 2, 3], OutputStop, OutputClose]"
    by (simp add: play_test_def play_test_thread_def play_test_try_def world_with_test_file_def
        test_path_def wave_read_eight_bit CHUNK_def l emit_def silent_output_simps
        idle_world_def)
  from 1 2 3 show ?thesis by blast
qed

text \<open>
  Claim C6, amended: with no test file path, or with the file absent, \<^verbatim>\<open>play_test\<close>
  returns \<^verbatim>\<open>False\<close> and starts nothing. With the file present but rejected by
  \<^verbatim>\<open>wave.open\<close>, or with an output device that cannot be opened, the playback thread
  swallows the exception: nothing is written to the output device and no event is emitted.
  A file that \<^verbatim>\<open>wave.open\<close> accepts is played whatever its sample width: on a device
  that opens and accepts the first write, the first \<^verbatim>\<open>CHUNK\<close> frames of a non-empty
  payload are written. What \<^verbatim>\<open>wave.open\<close> accepts is decided chunk by chunk: a file
  with a \<open>LIST\<close> chunk before its \<open>data\<close> chunk is played, one whose RIFF header
  announces the size 0 is not.
\<close>

theorem playback_failures_are_silent:
  "(test_file_path w = None \<longrightarrow> play_test dev w = (False, w))
   \<and> (test_file_path w = Some path \<and> (path = [] \<or> files w path = None) \<longrightarrow>
        play_test dev w = (False, w))
   \<and> (test_file_path w = Some path \<and> path \<noteq> [] \<and> files w path = Some bs
        \<and> ((\<exists>e. wave_read bs = Inl e) \<or> out_open_error dev \<noteq> None) \<longrightarrow>
        play_test dev w = (True, w))
   \<and> (test_file_path w = Some path \<and> path \<noteq> [] \<and> files w path = Some bs
        \<and> wave_read bs = Inr wav \<and> payload wav \<noteq> []
        \<and> out_open_error dev = None \<and> out_write_error dev 0 = None \<longrightarrow>
        fst (play_test dev w) \<and>
        (\<exists>es. trace (snd (play_test dev w)) =
           trace w @ OutputOpen
             # OutputWrite (take (CHUNK * (nchannels wav * sampwidth wav)) (payload wav)) # es))"
proof (intro conjI impI)
  assume "test_file_path w = None"
  then show "play_test dev w = (False, w)"
    by (simp add: play_test_def)
next
  assume "test_file_path w = Some path \<and> (path = [] \<or> files w path = None)"
  then show "play_test dev w = (False, w)"
    by (auto simp: play_test_def)
next
  assume a: "test_file_path w = Some path \<and> path \<noteq> [] \<and> files w path = Some bs
        \<and> ((\<exists>e. wave_read bs = Inl e) \<or> out_open_error dev \<noteq> None)"
  then have "snd (play_test_try dev w) = w"
    by (auto simp: play_test_try_def split: sum.splits option.splits)
  with a show "play_test dev w = (True, w)"
    by (simp add: play_test_def play_test_thread_def)
next
  assume a: "test_file_path w = Some path \<and> path \<noteq> [] \<and> files w path = Some bs
        \<and> wave_read bs = Inr wav \<and> payload wav \<noteq> []
        \<and> out_open_error dev = None \<and> out_write_error dev 0 = None"
  let ?n = "CHUNK * (nchannels wav * sampwidth wav)"
  from a have "wave_read bs = Inr wav" by simp
  then have pos: "0 < nchannels wav" "0 < sampwidth wav"
    using wave_read_pos by blast+
  then have "0 < ?n" by (simp add: CHUNK_def)
  with a have ne: "take ?n (payload wav) \<noteq> []" by simp
  from a have w0: "out_write_error dev 0 = None" by simp
  obtain r w1 where pl: "play_loop dev ?n 0 (payload wav) (emit OutputOpen w) = (r, w1)"
    by (cases "play_loop dev ?n 0 (payload wav) (emit OutputOpen w)")
  from play_loop_first_write [OF ne w0, of "emit OutputOpen w"] obtain es where
    "trace w1 = trace (emit OutputOpen w) @ OutputWrite (take ?n (payload wav)) # es"
    by (auto simp: pl)
  then have es: "trace w1 = trace w @ OutputOpen # OutputWrite (take ?n (payload wav)) # es"
    by (simp add: emit_def)
  have "\<exists>es'. trace (snd (play_test_try dev w)) = trace w1 @ es'"
    using a by (auto simp: play_test_try_def pl split: sum.splits option.splits)
       (simp_all add: emit_def)
  then obtain es' where "trace (snd (play_test_try dev w)) = trace w1 @ es'" by blast
  with es have "trace (snd (play_test_try dev w)) =
      trace w @ OutputOpen # OutputWrite (take ?n (payload wav)) # (es @ es')"
    by simp
  then have "\<exists>es. trace (snd (play_test dev w)) =
           trace w @ OutputOpen # OutputWrite (take ?n (payload wav)) # es"
    using a by (auto simp: play_test_def play_test_thread_def)
  then show "(\<exists>es. trace (snd (play_test dev w)) =
           trace w @ OutputOpen # OutputWrite (take ?n (payload wav)) # es)" .
  from a show "fst (play_test dev w)"
    by (simp add: play_test_def)
qed

theorem playback_failures_are_silent_witness:
  "play_test silent_device absent_file_world = (False, absent_file_world)
   \<and> play_test no_output_device (world_with_test_file eight_bit_file) =
       (True, world_with_test_file eight_bit_file)
   \<and> play_test silent_device (world_with_test_file zero_size_file) =
       (True, world_with_test_file zero_size_file)
   \<and> (\<exists>es. trace (snd (play_test silent_device (world_with_test_file list_chunk_file))) =
          OutputOpen # OutputWrite [1, 2, 3, 4] # es)"
proof -
  have "play_test silent_device absent_file_world = (False, absent_file_world)"
    using playback_failures_are_silent
      [where w = absent_file_world and dev = silent_device and path = test_path]
    by (simp add: absent_file_world_def idle_world_def)
  moreover have "play_test no_output_device (world_with_test_file eight_bit_file) =
       (True, world_with_test_file eight_bit_file)"
    using playback_failures_are_silent
      [where w = "world_with_test_file eight_bit_file" and dev = no_output_device
         and path = test_path and bs = eight_bit_file]
    by (simp add: world_with_test_file_def no_output_device_def test_path_def)
  moreover have "play_test silent_device (world_with_test_file zero_size_file) =
       (True, world_with_test_file zero_size_file)"
    using playback_failures_are_silent
      [where w = "world_with_test_file zero_size_file" and dev = silent_device
         and path = test_path and bs = zero_size_file]
    by (simp add: world_with_test_file_def test_path_def wave_read_zero_size)
  moreover have "\<exists>es. trace (snd (play_test silent_device
          (world_with_test_file list_chunk_file))) =
        OutputOpen # OutputWrite [1, 2, 3, 4] # es"
    using playback_failures_are_silent
      [where w = "world_with_test_file list_chunk_file" and dev = silent_device
         and path = test_path and bs = list_chunk_file
         and wav = "\<lparr>nchannels = 1, sampwidth = 2, framerate = 48000,
                      payload = [1, 2, 3, 4]\<rparr>"]
    by (simp add: world_with_test_file_def test_path_def wave_read_list_chunk
        silent_output_simps idle_world_def CHUNK_def)
  ultimately show ?thesis by blast
qed

section \<open>Starting a capture from the window\<close>

text \<open>
  Claim C8, at the input where the code does otherwise: a test recording has just been
  started from the idle window with device 0 selected. \<^verbatim>\<open>record_test\<close> leaves the two
  record buttons enabled, and \<^verbatim>\<open>start_recording\<close> tests only \<^verbatim>\<open>is_recording\<close>, so a
  click on "Record OK" starts a second capture thread while the test recording runs:
  both flags are set and two captures have been started.
\<close>

theorem start_recording_during_test:
  "record_buttons_enabled (record_test (init_window (Some 0)))
   \<and> mw_is_testing (start_recording (record_test (init_window (Some 0))) ''OK'')
   \<and> mw_is_recording (start_recording (record_test (init_window (Some 0))) ''OK'')
   \<and> started (start_recording (record_test (init_window (Some 0))) ''OK'') =
       [RecordTest 0 3, Record 0 5 ''OK'' ''sample'' 1]"
  by (simp add: record_test_def start_recording_def init_window_def set_ui_enabled_def)

lemma start_recording_while_recording:
  "mw_is_recording mw \<Longrightarrow> start_recording mw category = mw"
  by (simp add: start_recording_def)

lemma record_test_while_busy:
  "mw_is_testing mw \<or> mw_is_recording mw \<Longrightarrow> record_test mw = mw"
  by (auto simp: record_test_def)

end
